theory Spec2Isabelle
  imports Main "HOL-Library.Sublist"
begin

section \<open>JavaScript string primitives used by the resolver\<close>

text \<open>
  Strings are lists of characters.  \<open>splitBy\<close> is \<^verbatim>\<open>String.prototype.split\<close> for a
  separator that matches exactly one character: the result always has at least one
  element, and \<^verbatim>\<open>"".split("/")\<close> is \<^verbatim>\<open>[""]\<close>.
\<close>

fun splitBy :: "(char \<Rightarrow> bool) \<Rightarrow> string \<Rightarrow> string list" where
  "splitBy sep [] = [[]]"
| "splitBy sep (c # cs) =
     (if sep c then [] # splitBy sep cs
      else (case splitBy sep cs of
              p # ps \<Rightarrow> (c # p) # ps
            | [] \<Rightarrow> [[c]]))"

text \<open>\<^verbatim>\<open>Array.prototype.join\<close> with a separator string.\<close>

fun joinWith :: "string \<Rightarrow> string list \<Rightarrow> string" where
  "joinWith sep [] = []"
| "joinWith sep [x] = x"
| "joinWith sep (x # y # ys) = x @ sep @ joinWith sep (y # ys)"

text \<open>
  \<^verbatim>\<open>seg.replace(/%5F/g, "_")\<close>: every non-overlapping occurrence of the three
  characters \<^verbatim>\<open>%5F\<close>, scanning from the left, becomes one underscore.
\<close>

fun replace5F :: "string \<Rightarrow> string" where
  "replace5F [] = []"
| "replace5F (c # cs) =
     (if c = CHR ''%'' \<and> take 2 cs = ''5F'' then CHR ''_'' # replace5F (drop 2 cs)
      else c # replace5F cs)"

section \<open>The POSIX \<^verbatim>\<open>path.join\<close> of Node.js\<close>

text \<open>
  The resolver imports Node's \<^verbatim>\<open>path\<close> module.  \<^verbatim>\<open>path.join\<close> concatenates its
  non-empty arguments with \<^verbatim>\<open>/\<close> and normalises the result: empty and \<^verbatim>\<open>.\<close>
  components are dropped, a \<^verbatim>\<open>..\<close> component removes the component before it (or is
  kept, for a relative path that has nothing left to remove), a leading and a trailing
  slash are preserved, and the empty result is written \<^verbatim>\<open>.\<close>.  \<open>normalizePath\<close> is
  the module's \<^verbatim>\<open>normalize\<close>; \<open>normalizeStep\<close> is what its \<^verbatim>\<open>normalizeString\<close>
  does at the end of one component, with the component stack kept top first.
\<close>

definition isPosixPathSeparator :: "char \<Rightarrow> bool" where
  "isPosixPathSeparator c = (c = CHR ''/'')"

fun normalizeStep :: "bool \<Rightarrow> string list \<Rightarrow> string \<Rightarrow> string list" where
  "normalizeStep allowAboveRoot res c =
     (if c = [] \<or> c = ''.'' then res
      else if c = ''..'' then
        (case res of
           [] \<Rightarrow> if allowAboveRoot then [''..''] else []
         | lastSegment # below \<Rightarrow>
             if lastSegment = ''..'' then (if allowAboveRoot then ''..'' # res else res)
             else below)
      else c # res)"

definition normalizeString :: "string \<Rightarrow> bool \<Rightarrow> string" where
  "normalizeString path allowAboveRoot =
     joinWith ''/'' (rev (foldl (normalizeStep allowAboveRoot) []
                            (splitBy isPosixPathSeparator path)))"

definition normalizePath :: "string \<Rightarrow> string" where
  "normalizePath path =
     (if path = [] then ''.''
      else
        let isAbsolute = (hd path = CHR ''/'');
            trailingSeparator = (last path = CHR ''/'');
            p = normalizeString path (\<not> isAbsolute)
        in if p = [] then (if isAbsolute then ''/'' else if trailingSeparator then ''./'' else ''.'')
           else (if isAbsolute then ''/'' else [])
                @ p @ (if trailingSeparator then ''/'' else []))"

definition join :: "string list \<Rightarrow> string" where
  "join args =
     (let parts = filter (\<lambda>arg. arg \<noteq> []) args
      in if parts = [] then ''.'' else normalizePath (joinWith ''/'' parts))"

section \<open>Data model\<close>

record ResolvedConfig =
  appDir :: string
  routeTypeFileName :: string
  debug :: bool

record RouteResolution =
  filePath :: string
  exists :: bool

text \<open>
  The three queries the resolver makes of \<^verbatim>\<open>typescript.sys\<close>.  \<open>readDirectory\<close> is
  always called as \<^verbatim>\<open>readDirectory(dir, undefined, undefined, ["*/"])\<close>, so it is a
  function of the directory alone; \<open>None\<close> is a call that throws.
\<close>

record Sys =
  fileExists :: "string \<Rightarrow> bool"
  directoryExists :: "string \<Rightarrow> bool"
  readDirectory :: "string \<Rightarrow> string list option"

section \<open>Direct resolution\<close>

definition parseRouteSegments :: "string \<Rightarrow> string list" where
  "parseRouteSegments route =
     (if route = ''/'' then []
      else filter (\<lambda>s. s \<noteq> []) (splitBy (\<lambda>c. c = CHR ''/'') (drop 1 route)))"

text \<open>The expression \<^verbatim>\<open>segments.map((seg) => seg.replace(/%5F/g, "_"))\<close>.\<close>

definition escapedSegments :: "string list \<Rightarrow> string list" where
  "escapedSegments segments = map replace5F segments"

definition buildPossiblePaths :: "Sys \<Rightarrow> string list \<Rightarrow> string \<Rightarrow> ResolvedConfig \<Rightarrow> string list" where
  "buildPossiblePaths typescript segments projectPath config =
     (let appDirPath = join [projectPath, appDir config];
          escaped = escapedSegments segments;
          routeDir = (if length escaped > 0 then join (appDirPath # escaped) else appDirPath)
      in [join [routeDir, routeTypeFileName config @ ''.ts''],
          join [routeDir, routeTypeFileName config @ ''.tsx'']])"

text \<open>The loop \<^verbatim>\<open>for (const filePath of possiblePaths)\<close> with its early return.\<close>

fun firstExisting :: "Sys \<Rightarrow> string list \<Rightarrow> RouteResolution option" where
  "firstExisting typescript [] = None"
| "firstExisting typescript (p # ps) =
     (if fileExists typescript p then Some \<lparr>filePath = p, exists = True\<rparr>
      else firstExisting typescript ps)"

definition resolveRouteToFile ::
  "Sys \<Rightarrow> string \<Rightarrow> string \<Rightarrow> ResolvedConfig \<Rightarrow> RouteResolution option" where
  "resolveRouteToFile typescript route projectPath config =
     (let segments = parseRouteSegments route;
          possiblePaths = buildPossiblePaths typescript segments projectPath config
      in case firstExisting typescript possiblePaths of
           Some r \<Rightarrow> Some r
         | None \<Rightarrow>
             (case possiblePaths of
                p # _ \<Rightarrow> Some \<lparr>filePath = p, exists = False\<rparr>
              | [] \<Rightarrow> None))"

section \<open>Grouping-aware resolution\<close>

text \<open>
  \<open>searchDir\<close> recurses for as long as the directory listings keep producing route
  groups, so the model carries fuel: one unit per call of \<open>searchDir\<close>.  A run ends
  in one of three ways.
\<close>

datatype error = ReadDirectoryFailed

datatype 'a outcome = OutOfFuel | Throws error | Returns 'a

text \<open>JavaScript truthiness of a \<^verbatim>\<open>string | null\<close>: null and the empty string are falsy.\<close>

fun truthy :: "string option \<Rightarrow> bool" where
  "truthy None = False"
| "truthy (Some s) = (s \<noteq> [])"

text \<open>
  \<^verbatim>\<open>const parts = entry.split(/[/\\]/);
  const dirName = parts[parts.length - 1] || parts[parts.length - 2];\<close>
  with \<open>None\<close> for a falsy \<^verbatim>\<open>dirName\<close> (the empty string or \<^verbatim>\<open>undefined\<close>).
\<close>

definition dirNameOf :: "string \<Rightarrow> string option" where
  "dirNameOf entry =
     (let parts = splitBy (\<lambda>c. c = CHR ''/'' \<or> c = CHR 0x5C) entry;
          n = length parts
      in if parts ! (n - 1) \<noteq> [] then Some (parts ! (n - 1))
         else if 2 \<le> n \<and> parts ! (n - 2) \<noteq> [] then Some (parts ! (n - 2))
         else None)"

text \<open>
  \<^verbatim>\<open>/^\([^)]+\)$/.test(dirName)\<close>: an opening parenthesis, then the longest run of
  characters other than \<^verbatim>\<open>)\<close>, which must not be empty, then one \<^verbatim>\<open>)\<close> that ends
  the name.
\<close>

definition isRouteGroup :: "string \<Rightarrow> bool" where
  "isRouteGroup dirName =
     (case dirName of
        [] \<Rightarrow> False
      | c # cs \<Rightarrow> c = CHR ''('' \<and> takeWhile (\<lambda>x. x \<noteq> CHR '')'') cs \<noteq> []
                  \<and> dropWhile (\<lambda>x. x \<noteq> CHR '')'') cs = '')'')"

text \<open>The base case's loop \<^verbatim>\<open>for (const ext of ["ts", "tsx"])\<close>.\<close>

fun findRouteTypeFile :: "Sys \<Rightarrow> string \<Rightarrow> ResolvedConfig \<Rightarrow> string list \<Rightarrow> string option" where
  "findRouteTypeFile typescript currentDir config [] = None"
| "findRouteTypeFile typescript currentDir config (ext # exts) =
     (let filePath = join [currentDir, routeTypeFileName config @ ''.'' @ ext]
      in if fileExists typescript filePath then Some filePath
         else findRouteTypeFile typescript currentDir config exts)"

text \<open>
  \<open>searchEntries\<close> is the body of the \<^verbatim>\<open>for (const entry of entries)\<close> loop; it runs
  inside the \<^verbatim>\<open>try\<close> block, whose \<^verbatim>\<open>catch\<close> turns any \<open>Throws\<close> into falling through
  to the final \<^verbatim>\<open>return null\<close>.
\<close>

fun searchDir ::
    "nat \<Rightarrow> Sys \<Rightarrow> string \<Rightarrow> string list \<Rightarrow> ResolvedConfig \<Rightarrow> string option outcome"
  and searchEntries ::
    "nat \<Rightarrow> Sys \<Rightarrow> string \<Rightarrow> string list \<Rightarrow> ResolvedConfig \<Rightarrow> string list
       \<Rightarrow> string option outcome"
where
  "searchDir 0 typescript currentDir remainingSegments config = OutOfFuel"
| "searchDir (Suc n) typescript currentDir [] config =
     Returns (findRouteTypeFile typescript currentDir config [''ts'', ''tsx''])"
| "searchDir (Suc n) typescript currentDir (nextSegment # rest) config =
     (if nextSegment = [] then Returns None
      else
        let directPath = join [currentDir, nextSegment] in
        case (if directoryExists typescript directPath
              then searchDir n typescript directPath rest config
              else Returns None) of
          OutOfFuel \<Rightarrow> OutOfFuel
        | Throws e \<Rightarrow> Throws e
        | Returns result \<Rightarrow>
            if truthy result then Returns result
            else
              (case (case readDirectory typescript currentDir of
                       None \<Rightarrow> Throws ReadDirectoryFailed
                     | Some entries \<Rightarrow>
                         searchEntries n typescript currentDir (nextSegment # rest) config entries) of
                 OutOfFuel \<Rightarrow> OutOfFuel
               | Throws e \<Rightarrow> Returns None
               | Returns found \<Rightarrow> Returns found))"
| "searchEntries n typescript currentDir remainingSegments config [] = Returns None"
| "searchEntries n typescript currentDir remainingSegments config (entry # entries) =
     (case dirNameOf entry of
        None \<Rightarrow> searchEntries n typescript currentDir remainingSegments config entries
      | Some dirName \<Rightarrow>
          if isRouteGroup dirName then
            (case searchDir n typescript (join [currentDir, dirName]) remainingSegments config of
               OutOfFuel \<Rightarrow> OutOfFuel
             | Throws e \<Rightarrow> Throws e
             | Returns result \<Rightarrow>
                 if truthy result then Returns result
                 else searchEntries n typescript currentDir remainingSegments config entries)
          else searchEntries n typescript currentDir remainingSegments config entries)"

definition findRouteTypeWithGroups ::
  "nat \<Rightarrow> Sys \<Rightarrow> string \<Rightarrow> string \<Rightarrow> ResolvedConfig \<Rightarrow> string option outcome" where
  "findRouteTypeWithGroups fuel typescript route projectPath config =
     (let appDirPath = join [projectPath, appDir config];
          segments = parseRouteSegments route
      in searchDir fuel typescript appDirPath (escapedSegments segments) config)"

section \<open>Route-usage detector\<close>

text \<open>
  The syntax tree of the TypeScript compiler, cut down to the node kinds the detector
  tells apart.  Every node carries \<^verbatim>\<open>getStart(sourceFile)\<close> and \<^verbatim>\<open>getEnd()\<close>; the
  remaining arguments are the fields the detector reads and \<^verbatim>\<open>forEachChild\<close> visits,
  in visiting order.  Modifiers and punctuation tokens, which hold no literal, are left
  out.  \<open>OtherNode\<close> stands for every other kind, with its children.
\<close>

datatype Node =
    StringLiteral int int string
  | Identifier int int string
  | PropertyAssignment int int Node Node
  | ShorthandPropertyAssignment int int Node "Node option"
  | CallExpression int int Node "Node list" "Node list"
  | PropertyAccessExpression int int Node Node
  | OtherNode int int "Node list"

record SourceFile =
  sourceText :: string
  sourceStart :: int
  sourceEnd :: int
  statements :: "Node list"

record TextSpan =
  span_start :: int
  span_length :: int

record RouteStringInfo =
  route :: string
  info_start :: int
  info_end :: int
  span :: TextSpan

fun getStart :: "Node \<Rightarrow> int" where
  "getStart (StringLiteral s e t) = s"
| "getStart (Identifier s e t) = s"
| "getStart (PropertyAssignment s e nm ini) = s"
| "getStart (ShorthandPropertyAssignment s e nm ini) = s"
| "getStart (CallExpression s e ex targs args) = s"
| "getStart (PropertyAccessExpression s e ex nm) = s"
| "getStart (OtherNode s e cs) = s"

fun getEnd :: "Node \<Rightarrow> int" where
  "getEnd (StringLiteral s e t) = e"
| "getEnd (Identifier s e t) = e"
| "getEnd (PropertyAssignment s e nm ini) = e"
| "getEnd (ShorthandPropertyAssignment s e nm ini) = e"
| "getEnd (CallExpression s e ex targs args) = e"
| "getEnd (PropertyAccessExpression s e ex nm) = e"
| "getEnd (OtherNode s e cs) = e"

text \<open>The \<^verbatim>\<open>text\<close> property; \<open>None\<close> where a node kind has none.\<close>

fun textOf :: "Node \<Rightarrow> string option" where
  "textOf (StringLiteral s e t) = Some t"
| "textOf (Identifier s e t) = Some t"
| "textOf other = None"

fun isStringLiteral :: "Node \<Rightarrow> bool" where
  "isStringLiteral (StringLiteral s e t) = True"
| "isStringLiteral other = False"

fun isIdentifier :: "Node \<Rightarrow> bool" where
  "isIdentifier (Identifier s e t) = True"
| "isIdentifier other = False"

text \<open>The children \<^verbatim>\<open>forEachChild\<close> visits, in order.\<close>

fun children :: "Node \<Rightarrow> Node list" where
  "children (StringLiteral s e t) = []"
| "children (Identifier s e t) = []"
| "children (PropertyAssignment s e nm ini) = [nm, ini]"
| "children (ShorthandPropertyAssignment s e nm ini) = nm # (case ini of None \<Rightarrow> [] | Some i \<Rightarrow> [i])"
| "children (CallExpression s e ex targs args) = ex # targs @ args"
| "children (PropertyAccessExpression s e ex nm) = [ex, nm]"
| "children (OtherNode s e cs) = cs"

text \<open>
  \<^verbatim>\<open>forEachChild(node, cb)\<close> calls \<^verbatim>\<open>cb\<close> on each child in turn and stops at the
  first truthy result, which it returns.
\<close>

fun firstTruthy :: "('a \<Rightarrow> 'b option) \<Rightarrow> 'a list \<Rightarrow> 'b option" where
  "firstTruthy cb [] = None"
| "firstTruthy cb (x # xs) = (case cb x of Some r \<Rightarrow> Some r | None \<Rightarrow> firstTruthy cb xs)"

definition forEachChild :: "Node \<Rightarrow> (Node \<Rightarrow> 'b option) \<Rightarrow> 'b option" where
  "forEachChild node cb = firstTruthy cb (children node)"

lemma size_list_member: "c \<in> set cs \<Longrightarrow> size (c::Node) \<le> size_list size cs"
  by (induction cs) auto

lemma children_smaller: "c \<in> set (children n) \<Longrightarrow> size c < size n"
  by (cases n) (auto simp: less_Suc_eq_le split: option.splits dest: size_list_member)

lemma firstTruthy_cong: "(\<And>x. x \<in> set xs \<Longrightarrow> f x = g x) \<Longrightarrow> firstTruthy f xs = firstTruthy g xs"
  by (induction xs) (auto split: option.splits)

lemma forEachChild_cong [fundef_cong]:
  assumes "n = m" and "\<And>c. c \<in> set (children m) \<Longrightarrow> f c = g c"
  shows "forEachChild n f = forEachChild m g"
proof -
  have "firstTruthy f (children m) = firstTruthy g (children m)"
    by (rule firstTruthy_cong) (rule assms(2))
  with assms(1) show ?thesis by (simp only: forEachChild_def)
qed

text \<open>
  \<open>findNode\<close> is the closure \<^verbatim>\<open>find\<close> inside \<^verbatim>\<open>findTokenAtPosition\<close>.  The tree has
  parent links;
  here the node found comes with the chain of its ancestors below the source file,
  nearest first, so that \<^verbatim>\<open>node.parent\<close> is the head of the chain (or the source file
  itself when the chain is empty).
\<close>

function findNode :: "int \<Rightarrow> Node list \<Rightarrow> Node \<Rightarrow> (Node \<times> Node list) option" where
  "findNode position ancestors node =
     (if position \<ge> getStart node \<and> position < getEnd node then
        (case forEachChild node (findNode position (node # ancestors)) of
           Some childResult \<Rightarrow> Some childResult
         | None \<Rightarrow> Some (node, ancestors))
      else None)"
  by pat_completeness auto
termination
  by (relation "measure (\<lambda>(position, ancestors, node). size node)") (auto dest: children_smaller)

declare findNode.simps [simp del]

datatype Token = SourceFileToken | NodeToken Node "Node list"

definition findTokenAtPosition :: "SourceFile \<Rightarrow> int \<Rightarrow> Token option" where
  "findTokenAtPosition sourceFile position =
     (if position \<ge> sourceStart sourceFile \<and> position < sourceEnd sourceFile then
        (case firstTruthy (findNode position []) (statements sourceFile) of
           Some (node, ancestors) \<Rightarrow> Some (NodeToken node ancestors)
         | None \<Rightarrow> Some SourceFileToken)
      else None)"

text \<open>
  \<open>isRoutePropertyValue node ancestors\<close>: the literal's parent is the head of its
  ancestor chain; a literal directly under the source file has a parent that is
  neither kind of property assignment.
\<close>

definition isRoutePropertyValue :: "Node \<Rightarrow> Node list \<Rightarrow> bool" where
  "isRoutePropertyValue node ancestors =
     (case ancestors of
        [] \<Rightarrow> False
      | parent # _ \<Rightarrow>
          (case parent of
             PropertyAssignment s e propertyName ini \<Rightarrow>
               isIdentifier propertyName \<and> textOf propertyName = Some ''route''
           | ShorthandPropertyAssignment s e nm ini \<Rightarrow> textOf nm = Some ''route''
           | _ \<Rightarrow> False))"

definition isPathCall :: "Node \<Rightarrow> bool" where
  "isPathCall current =
     (case current of
        CallExpression s e expression targs args \<Rightarrow>
          (isIdentifier expression \<and> textOf expression = Some ''$path'')
          \<or> (case expression of
                PropertyAccessExpression s' e' ex nm \<Rightarrow> textOf nm = Some ''$path''
              | _ \<Rightarrow> False)
      | _ \<Rightarrow> False)"

text \<open>
  The \<^verbatim>\<open>while (current)\<close> loop over \<^verbatim>\<open>current.parent\<close>, run on the node followed by
  its ancestors; the source file that ends every chain is not a call expression.
\<close>

fun isWithinPathCall :: "Node list \<Rightarrow> bool" where
  "isWithinPathCall [] = False"
| "isWithinPathCall (current # parents) =
     (if isPathCall current then True else isWithinPathCall parents)"

definition detectRouteString :: "SourceFile \<Rightarrow> int \<Rightarrow> RouteStringInfo option" where
  "detectRouteString sourceFile position =
     (case findTokenAtPosition sourceFile position of
        None \<Rightarrow> None
      | Some SourceFileToken \<Rightarrow> None
      | Some (NodeToken token ancestors) \<Rightarrow>
          if \<not> isStringLiteral token then None
          else if \<not> isRoutePropertyValue token ancestors then None
          else if \<not> isWithinPathCall (token # ancestors) then None
          else
            (case textOf token of
               None \<Rightarrow> None
             | Some routeValue \<Rightarrow>
                 if take 1 routeValue \<noteq> ''/'' then None
                 else Some \<lparr>route = routeValue,
                            info_start = getStart token,
                            info_end = getEnd token,
                            span = \<lparr>span_start = getStart token,
                                    span_length = getEnd token - getStart token\<rparr>\<rparr>))"




section \<open>The listing interface and its bounds\<close>

text \<open>
  \<open>listDirectoryEntries\<close> is the list of names the grouping search reads out of a
  directory listing, with a listing that throws read as the empty list; \<open>groupDirs\<close>
  keeps the route groups among them.
\<close>

definition listDirectoryEntries :: "Sys \<Rightarrow> string \<Rightarrow> string list" where
  "listDirectoryEntries typescript dir =
     (case readDirectory typescript dir of
        None \<Rightarrow> []
      | Some entries \<Rightarrow> List.map_filter dirNameOf entries)"

definition groupDirs :: "Sys \<Rightarrow> string \<Rightarrow> string list" where
  "groupDirs typescript dir = filter isRouteGroup (listDirectoryEntries typescript dir)"

text \<open>
  \<open>groupNesting k\<close>: no chain of route groups nested inside one another below the
  directory is longer than \<open>k\<close>.  A directory tree of finite depth has such a bound for
  every directory.
\<close>

fun groupNesting :: "nat \<Rightarrow> Sys \<Rightarrow> string \<Rightarrow> bool" where
  "groupNesting 0 typescript dir = (groupDirs typescript dir = [])"
| "groupNesting (Suc k) typescript dir =
     (\<forall>g \<in> set (groupDirs typescript dir). groupNesting k typescript (join [dir, g]))"

text \<open>The same file system with every failing listing replaced by an empty one.\<close>

definition listingFailuresAsEmpty :: "Sys \<Rightarrow> Sys" where
  "listingFailuresAsEmpty typescript =
     typescript\<lparr>readDirectory :=
        (\<lambda>dir. case readDirectory typescript dir of None \<Rightarrow> Some [] | Some entries \<Rightarrow> Some entries)\<rparr>"

section \<open>Paths as sequences of descents\<close>

text \<open>
  A found path is the app directory, then one directory per step of the search, then
  the definition file.  A step is either the direct descent into the directory named by
  the next segment, which consumes that segment, or the entry into a route group, which
  consumes none.  \<open>descend\<close> joins the directory names one at a time, as \<open>searchDir\<close>
  does.
\<close>

datatype Step = Direct string | Group string

fun stepName :: "Step \<Rightarrow> string" where
  "stepName (Direct s) = s"
| "stepName (Group g) = g"

fun consumedSegments :: "Step list \<Rightarrow> string list" where
  "consumedSegments [] = []"
| "consumedSegments (Direct s # steps) = s # consumedSegments steps"
| "consumedSegments (Group g # steps) = consumedSegments steps"

fun groupsEntered :: "Step list \<Rightarrow> string list" where
  "groupsEntered [] = []"
| "groupsEntered (Direct s # steps) = groupsEntered steps"
| "groupsEntered (Group g # steps) = g # groupsEntered steps"

definition descend :: "string \<Rightarrow> string list \<Rightarrow> string" where
  "descend dir names = foldl (\<lambda>d name. join [d, name]) dir names"

section \<open>The grouping search as the specification describes it\<close>

text \<open>
  The specification's recursive descent, written as a relation between a directory, the
  remaining segments and the result.  It is stated over the directory tree itself:
  \<open>subdirs dir\<close> is the list of the names of the immediate subdirectories of \<open>dir\<close>,
  in listing order, whatever \<^verbatim>\<open>readDirectory\<close> answers.  A grouping directory is one
  whose name is wrapped in one pair of parentheses around a non-empty interior.  With no
  segment left the result is the \<^verbatim>\<open>.ts\<close> file if it exists, else the \<^verbatim>\<open>.tsx\<close>
  file if it exists, else null.  With \<open>head\<close> the next segment: if the subdirectory
  named \<open>head\<close> exists and the search below it with the rest finds a path, that path
  is the result; otherwise the grouping subdirectories are tried in listing order, each
  with all of \<open>head # rest\<close>, and the first path found is the result, null if there is
  none.
\<close>

definition isGroupingName :: "string \<Rightarrow> bool" where
  "isGroupingName name \<longleftrightarrow>
     (\<exists>interior. name = ''('' @ interior @ '')'' \<and> interior \<noteq> [] \<and> CHR '')'' \<notin> set interior)"

inductive groupingSearch ::
    "Sys \<Rightarrow> (string \<Rightarrow> string list) \<Rightarrow> ResolvedConfig \<Rightarrow> string \<Rightarrow> string list
       \<Rightarrow> string option \<Rightarrow> bool"
  and groupingScan ::
    "Sys \<Rightarrow> (string \<Rightarrow> string list) \<Rightarrow> ResolvedConfig \<Rightarrow> string \<Rightarrow> string list
       \<Rightarrow> string list \<Rightarrow> string option \<Rightarrow> bool"
  for typescript :: Sys and subdirs :: "string \<Rightarrow> string list" and config :: ResolvedConfig
where
  base_ts:
    "fileExists typescript (join [dir, routeTypeFileName config @ ''.ts''])
     \<Longrightarrow> groupingSearch typescript subdirs config dir [] (Some (join [dir, routeTypeFileName config @ ''.ts'']))"
| base_tsx:
    "\<not> fileExists typescript (join [dir, routeTypeFileName config @ ''.ts''])
     \<Longrightarrow> fileExists typescript (join [dir, routeTypeFileName config @ ''.tsx''])
     \<Longrightarrow> groupingSearch typescript subdirs config dir [] (Some (join [dir, routeTypeFileName config @ ''.tsx'']))"
| base_none:
    "\<not> fileExists typescript (join [dir, routeTypeFileName config @ ''.ts''])
     \<Longrightarrow> \<not> fileExists typescript (join [dir, routeTypeFileName config @ ''.tsx''])
     \<Longrightarrow> groupingSearch typescript subdirs config dir [] None"
| direct_hit:
    "directoryExists typescript (join [dir, head])
     \<Longrightarrow> groupingSearch typescript subdirs config (join [dir, head]) rest (Some p)
     \<Longrightarrow> groupingSearch typescript subdirs config dir (head # rest) (Some p)"
| groups_after_direct:
    "directoryExists typescript (join [dir, head])
     \<Longrightarrow> groupingSearch typescript subdirs config (join [dir, head]) rest None
     \<Longrightarrow> groupingScan typescript subdirs config dir (head # rest)
           (filter isGroupingName (subdirs dir)) r
     \<Longrightarrow> groupingSearch typescript subdirs config dir (head # rest) r"
| groups_only:
    "\<not> directoryExists typescript (join [dir, head])
     \<Longrightarrow> groupingScan typescript subdirs config dir (head # rest)
           (filter isGroupingName (subdirs dir)) r
     \<Longrightarrow> groupingSearch typescript subdirs config dir (head # rest) r"
| scan_done:
    "groupingScan typescript subdirs config dir segs [] None"
| scan_hit:
    "groupingSearch typescript subdirs config (join [dir, g]) segs (Some p)
     \<Longrightarrow> groupingScan typescript subdirs config dir segs (g # gs) (Some p)"
| scan_miss:
    "groupingSearch typescript subdirs config (join [dir, g]) segs None
     \<Longrightarrow> groupingScan typescript subdirs config dir segs gs r
     \<Longrightarrow> groupingScan typescript subdirs config dir segs (g # gs) r"

section \<open>Normal forms of joined paths\<close>

text \<open>
  What \<open>join\<close> computes, in terms of path components.  \<open>components p\<close> is the stack
  that normalising \<open>p\<close> ends with, \<open>validStack\<close> the invariant of such stacks (no empty
  or \<^verbatim>\<open>.\<close> component, no separator inside a component, \<^verbatim>\<open>..\<close> only at the bottom of
  a relative path), and \<open>normalForm d cs\<close> the normalised path \<open>d\<close> followed by the
  components \<open>cs\<close>.  A normal component is a directory or file name: not empty, not
  \<^verbatim>\<open>.\<close> or \<^verbatim>\<open>..\<close>, and without a separator.
\<close>

definition isAbsolute :: "string \<Rightarrow> bool" where
  "isAbsolute p \<longleftrightarrow> p \<noteq> [] \<and> hd p = CHR ''/''"

definition components :: "string \<Rightarrow> string list" where
  "components p = foldl (normalizeStep (\<not> isAbsolute p)) [] (splitBy isPosixPathSeparator p)"

definition normalComponent :: "string \<Rightarrow> bool" where
  "normalComponent c \<longleftrightarrow> c \<noteq> [] \<and> c \<noteq> ''.'' \<and> c \<noteq> ''..'' \<and> CHR ''/'' \<notin> set c"

fun validStack :: "bool \<Rightarrow> string list \<Rightarrow> bool" where
  "validStack allow [] = True"
| "validStack allow (x # below) =
     (x \<noteq> [] \<and> CHR ''/'' \<notin> set x \<and> x \<noteq> ''.''
      \<and> (if x = ''..'' then allow \<and> (\<forall>y \<in> set below. y = ''..'') else validStack allow below))"

definition normalForm :: "string \<Rightarrow> string list \<Rightarrow> string" where
  "normalForm d cs = (if isAbsolute d then ''/'' else []) @ joinWith ''/'' (rev (components d) @ cs)"


text \<open>
  \<open>d\<close> is an ancestor directory of the path \<open>p\<close> when \<open>p\<close> is \<open>d\<close>, a separator
  and something more (or \<open>d\<close> is the root and \<open>p\<close> an absolute path below it).
  \<open>ancestorDirsExist\<close>: \<open>directoryExists\<close> reports every ancestor directory of every
  existing file.
\<close>

definition isAncestorDir :: "string \<Rightarrow> string \<Rightarrow> bool" where
  "isAncestorDir d p \<longleftrightarrow>
     (d = ''/'' \<and> strict_prefix ''/'' p) \<or> (d \<noteq> [] \<and> strict_prefix (d @ ''/'') p)"

definition ancestorDirsExist :: "Sys \<Rightarrow> bool" where
  "ancestorDirsExist typescript \<longleftrightarrow>
     (\<forall>p d. fileExists typescript p \<and> isAncestorDir d p \<longrightarrow> directoryExists typescript d)"

section \<open>Example inputs\<close>

definition defaultConfig :: ResolvedConfig where
  "defaultConfig = \<lparr>appDir = ''src/app'', routeTypeFileName = ''routeType'', debug = False\<rparr>"

text \<open>A project in which exactly the listed files exist and no directory lists any entry.\<close>

definition filesOnly :: "string list \<Rightarrow> Sys" where
  "filesOnly files =
     \<lparr>fileExists = (\<lambda>p. p \<in> set files),
      directoryExists = (\<lambda>d. True),
      readDirectory = (\<lambda>d. Some [])\<rparr>"

text \<open>
  The source files \<^verbatim>\<open>$path({ route: "/users/[id]" })\<close> and
  \<^verbatim>\<open>$path({ path: "/users" })\<close> with their syntax trees.
\<close>

definition routeCallFile :: SourceFile where
  "routeCallFile =
     \<lparr>sourceText = ''$path({ route: \"/users/[id]\" })'',
      sourceStart = 0, sourceEnd = 31,
      statements =
        [OtherNode 0 31
           [CallExpression 0 31 (Identifier 0 5 ''$path'') []
              [OtherNode 6 30
                 [PropertyAssignment 8 28 (Identifier 8 13 ''route'')
                    (StringLiteral 15 28 ''/users/[id]'')]]]]\<rparr>"

definition pathCallFile :: SourceFile where
  "pathCallFile =
     \<lparr>sourceText = ''$path({ path: \"/users\" })'',
      sourceStart = 0, sourceEnd = 25,
      statements =
        [OtherNode 0 25
           [CallExpression 0 25 (Identifier 0 5 ''$path'') []
              [OtherNode 6 24
                 [PropertyAssignment 8 22 (Identifier 8 12 ''path'')
                    (StringLiteral 14 22 ''/users'')]]]]\<rparr>"


text \<open>
  A project whose app directory holds the groups \<^verbatim>\<open>(auth)\<close> and \<^verbatim>\<open>(shop)\<close>; the
  login route is defined inside \<^verbatim>\<open>(shop)\<close>, and listing \<^verbatim>\<open>(auth)\<close> fails.
\<close>

definition groupedProject :: Sys where
  "groupedProject =
     \<lparr>fileExists = (\<lambda>p. p = ''/project/src/app/(shop)/login/routeType.ts''),
      directoryExists = (\<lambda>d. d = ''/project/src/app/(shop)/login''),
      readDirectory = (\<lambda>d. if d = ''/project/src/app'' then Some [''(auth)/'', ''(shop)/'']
                            else if d = ''/project/src/app/(auth)'' then None
                            else Some [])\<rparr>"

text \<open>
  A project with the one route \<^verbatim>\<open>/b\<close>: the file \<^verbatim>\<open>src/app/b/routeType.ts\<close> and
  its ancestor directories exist, and nothing else does.
\<close>

definition dotDotProject :: Sys where
  "dotDotProject =
     \<lparr>fileExists = (\<lambda>p. p = ''/project/src/app/b/routeType.ts''),
      directoryExists = (\<lambda>d. d \<in> set [''/'', ''/project'', ''/project/src'', ''/project/src/app'',
                                         ''/project/src/app/b'']),
      readDirectory = (\<lambda>d. if d = ''/project/src/app'' then Some [''b/''] else Some [])\<rparr>"

text \<open>
  The mocks of the repository's test \<^verbatim>\<open>finds route inside route group\<close>: every listing is
  \<^verbatim>\<open>["(auth)/"]\<close>, and every directory exists but \<^verbatim>\<open>/project/src/app/login\<close>.
\<close>

definition authGroupMock :: Sys where
  "authGroupMock =
     \<lparr>fileExists = (\<lambda>p. p = ''/project/src/app/(auth)/login/routeType.ts''),
      directoryExists = (\<lambda>d. d \<noteq> ''/project/src/app/login''),
      readDirectory = (\<lambda>d. Some [''(auth)/''])\<rparr>"

text \<open>
  A project with the two routes \<^verbatim>\<open>/_draft\<close> and \<^verbatim>\<open>/%5fdraft\<close>, the second in a
  directory whose name holds the lower-case escape as written.
\<close>

definition draftProject :: Sys where
  "draftProject = filesOnly [''/project/src/app/_draft/routeType.ts'',
                             ''/project/src/app/%5fdraft/routeType.ts'']"

text \<open>
  A project on disk whose only file is \<^verbatim>\<open>src/app/(auth)/login/routeType.ts\<close>, as the
  compiler's own \<^verbatim>\<open>sys\<close> reports it.  The file and the directories above it exist.
  \<^verbatim>\<open>sys.readDirectory(dir, undefined, undefined, ["*/"])\<close> collects files only: it
  answers with the paths of the files directly in \<^verbatim>\<open>dir\<close>, never with a directory,
  and with the empty list for a directory it cannot read.  \<open>authLoginSubdirs\<close> is the
  directory tree of the same project: the names of the immediate subdirectories of each
  directory.
\<close>

definition authLoginHost :: Sys where
  "authLoginHost =
     \<lparr>fileExists = (\<lambda>p. p = ''/project/src/app/(auth)/login/routeType.ts''),
      directoryExists = (\<lambda>d. d \<in> set [''/'', ''/project'', ''/project/src'', ''/project/src/app'',
                                         ''/project/src/app/(auth)'',
                                         ''/project/src/app/(auth)/login'']),
      readDirectory = (\<lambda>d. if d = ''/project/src/app/(auth)/login''
                            then Some [''/project/src/app/(auth)/login/routeType.ts'']
                            else Some [])\<rparr>"

definition authLoginSubdirs :: "string \<Rightarrow> string list" where
  "authLoginSubdirs dir =
     (if dir = ''/'' then [''project'']
      else if dir = ''/project'' then [''src'']
      else if dir = ''/project/src'' then [''app'']
      else if dir = ''/project/src/app'' then [''(auth)'']
      else if dir = ''/project/src/app/(auth)'' then [''login'']
      else [])"

section \<open>The repository's resolver tests on the model\<close>

lemma test_resolves_root_route:
  "resolveRouteToFile (filesOnly [''/project/src/app/routeType.ts'']) ''/'' ''/project'' defaultConfig
     = Some \<lparr>filePath = ''/project/src/app/routeType.ts'', exists = True\<rparr>"
  by code_simp

lemma test_resolves_nested_route:
  "resolveRouteToFile (filesOnly [''/project/src/app/foo/[id]/nest/routeType.ts''])
       ''/foo/[id]/nest'' ''/project'' defaultConfig
     = Some \<lparr>filePath = ''/project/src/app/foo/[id]/nest/routeType.ts'', exists = True\<rparr>"
  by code_simp

lemma test_double_underscore_escaping:
  "resolveRouteToFile (filesOnly [''/project/src/app/_internal/__very-internal/routeType.ts''])
       ''/%5Finternal/%5F%5Fvery-internal'' ''/project'' defaultConfig
     = Some \<lparr>filePath = ''/project/src/app/_internal/__very-internal/routeType.ts'', exists = True\<rparr>"
  by code_simp

lemma test_finds_route_in_direct_path:
  "findRouteTypeWithGroups 2 (filesOnly [''/project/src/app/users/routeType.ts''])
       ''/users'' ''/project'' defaultConfig
     = Returns (Some ''/project/src/app/users/routeType.ts'')"
  by code_simp

lemma test_finds_route_inside_route_group:
  "findRouteTypeWithGroups 3 authGroupMock ''/login'' ''/project'' defaultConfig
     = Returns (Some ''/project/src/app/(auth)/login/routeType.ts'')"
  by code_simp

lemma test_returns_null_when_route_not_found:
  "findRouteTypeWithGroups 1
       \<lparr>fileExists = (\<lambda>p. False), directoryExists = (\<lambda>d. False), readDirectory = (\<lambda>d. Some [])\<rparr>
       ''/nonexistent'' ''/project'' defaultConfig
     = Returns None"
  by code_simp

section \<open>Properties of direct resolution\<close>

text \<open>
  Claim C3.  \<open>resolveRouteToFile\<close> builds exactly two candidates, the \<^verbatim>\<open>.ts\<close> path and
  then the \<^verbatim>\<open>.tsx\<close> path inside the route's directory.  It returns the first of them
  that exists, with \<open>exists = True\<close> (so the \<^verbatim>\<open>.ts\<close> path when both exist); when neither
  exists it returns the \<^verbatim>\<open>.ts\<close> path with \<open>exists = False\<close>; it never returns null.
\<close>

theorem resolveRouteToFile_result:
  "let appDirPath = join [projectPath, appDir config];
       escaped = escapedSegments (parseRouteSegments r);
       routeDir = (if escaped = [] then appDirPath else join (appDirPath # escaped));
       tsPath = join [routeDir, routeTypeFileName config @ ''.ts''];
       tsxPath = join [routeDir, routeTypeFileName config @ ''.tsx'']
   in buildPossiblePaths typescript (parseRouteSegments r) projectPath config = [tsPath, tsxPath]
      \<and> resolveRouteToFile typescript r projectPath config =
          Some (if fileExists typescript tsPath then \<lparr>filePath = tsPath, exists = True\<rparr>
                else if fileExists typescript tsxPath then \<lparr>filePath = tsxPath, exists = True\<rparr>
                else \<lparr>filePath = tsPath, exists = False\<rparr>)
      \<and> resolveRouteToFile typescript r projectPath config \<noteq> None"
  by (simp add: resolveRouteToFile_def buildPossiblePaths_def Let_def)

lemma users_possiblePaths:
  "buildPossiblePaths typescript (parseRouteSegments ''/users'') ''/project'' defaultConfig
     = [''/project/src/app/users/routeType.ts'', ''/project/src/app/users/routeType.tsx'']"
  by (simp add: buildPossiblePaths_def parseRouteSegments_def escapedSegments_def join_def
      normalizePath_def normalizeString_def isPosixPathSeparator_def defaultConfig_def)

theorem resolveRouteToFile_result_witness:
  "resolveRouteToFile
       (filesOnly [''/project/src/app/users/routeType.ts'', ''/project/src/app/users/routeType.tsx''])
       ''/users'' ''/project'' defaultConfig
     = Some \<lparr>filePath = ''/project/src/app/users/routeType.ts'', exists = True\<rparr>
   \<and> resolveRouteToFile (filesOnly [''/project/src/app/users/routeType.tsx''])
       ''/users'' ''/project'' defaultConfig
     = Some \<lparr>filePath = ''/project/src/app/users/routeType.tsx'', exists = True\<rparr>
   \<and> resolveRouteToFile (filesOnly []) ''/users'' ''/project'' defaultConfig
     = Some \<lparr>filePath = ''/project/src/app/users/routeType.ts'', exists = False\<rparr>"
  using resolveRouteToFile_result
      [of "''/project''" defaultConfig "''/users''"
          "filesOnly [''/project/src/app/users/routeType.ts'', ''/project/src/app/users/routeType.tsx'']"]
    resolveRouteToFile_result
      [of "''/project''" defaultConfig "''/users''" "filesOnly [''/project/src/app/users/routeType.tsx'']"]
    resolveRouteToFile_result
      [of "''/project''" defaultConfig "''/users''" "filesOnly []"]
  unfolding Let_def users_possiblePaths
  by (simp add: filesOnly_def)

text \<open>
  Claim C2, as stated: the returned \<open>filePath\<close> is the same for any two file system
  states.  It is not: with only the \<^verbatim>\<open>.tsx\<close> file present the \<^verbatim>\<open>.tsx\<close> path comes
  back, with no file present the \<^verbatim>\<open>.ts\<close> path does.
\<close>

theorem filePath_independence_counterexample:
  "filePath (the (resolveRouteToFile (filesOnly [''/project/src/app/users/routeType.tsx''])
                    ''/users'' ''/project'' defaultConfig))
   \<noteq> filePath (the (resolveRouteToFile (filesOnly []) ''/users'' ''/project'' defaultConfig))"
  by code_simp

text \<open>
  Claim C2, amended.  The two candidate paths depend on the route, the project root and
  the configuration only; the returned \<open>filePath\<close> is always one of the two; and two
  file system states that agree on the existence of the two candidates give the same
  result.  Which of the two candidates is returned depends on which of them exist.
\<close>

theorem filePath_depends_on_candidates:
  "buildPossiblePaths fsA (parseRouteSegments r) projectPath config
     = buildPossiblePaths fsB (parseRouteSegments r) projectPath config
   \<and> (\<exists>res. resolveRouteToFile fsA r projectPath config = Some res
          \<and> filePath res \<in> set (buildPossiblePaths fsB (parseRouteSegments r) projectPath config))
   \<and> ((\<forall>p \<in> set (buildPossiblePaths fsB (parseRouteSegments r) projectPath config).
          fileExists fsA p = fileExists fsB p)
        \<longrightarrow> resolveRouteToFile fsA r projectPath config = resolveRouteToFile fsB r projectPath config)"
  by (simp add: resolveRouteToFile_def buildPossiblePaths_def Let_def)

theorem filePath_depends_on_candidates_witness:
  "resolveRouteToFile (filesOnly [''/project/src/app/users/routeType.tsx'']) ''/users'' ''/project'' defaultConfig
     = resolveRouteToFile
         (filesOnly [''/project/src/app/users/routeType.tsx'', ''/project/src/app/(auth)/login/routeType.ts''])
         ''/users'' ''/project'' defaultConfig"
  using filePath_depends_on_candidates
      [of "filesOnly [''/project/src/app/users/routeType.tsx'']" "''/users''" "''/project''" defaultConfig
          "filesOnly [''/project/src/app/users/routeType.tsx'', ''/project/src/app/(auth)/login/routeType.ts'']"]
  unfolding users_possiblePaths
  by (simp add: filesOnly_def)

section \<open>Properties of escape decoding\<close>

lemma replace5F_append:
  "replace5F (a @ ''%5F'' @ b) = replace5F a @ ''_'' @ replace5F b"
proof (induction a rule: replace5F.induct)
  case 1
  show ?case by simp
next
  case (2 c cs)
  show ?case
  proof (cases "c = CHR ''%'' \<and> take 2 cs = ''5F''")
    case True
    then have len: "2 \<le> length cs"
      by (metis length_take min.cobounded1 length_Cons list.size(3) One_nat_def Suc_1)
    with True 2 show ?thesis by simp
  next
    case False
    have "take 2 (cs @ ''%5F'' @ b) \<noteq> ''5F'' \<or> c \<noteq> CHR ''%''"
    proof (cases "2 \<le> length cs")
      case True
      with False show ?thesis by auto
    next
      case False
      then have "cs = [] \<or> (\<exists>x. cs = [x])"
        by (cases cs; cases "tl cs") auto
      then show ?thesis by auto
    qed
    with False 2 show ?thesis by auto
  qed
qed

lemma replace5F_id: "\<not> sublist ''%5F'' s \<Longrightarrow> replace5F s = s"
proof (induction s rule: replace5F.induct)
  case 1
  show ?case by simp
next
  case (2 c cs)
  have nomatch: "\<not> (c = CHR ''%'' \<and> take 2 cs = ''5F'')"
  proof
    assume m: "c = CHR ''%'' \<and> take 2 cs = ''5F''"
    then have "c # cs = [] @ ''%5F'' @ drop 2 cs"
      by (metis append_Cons append_Nil append_take_drop_id)
    then have "sublist ''%5F'' (c # cs)" unfolding sublist_def by blast
    with 2 show False by simp
  qed
  moreover have "\<not> sublist ''%5F'' cs"
    using 2(3) by (meson sublist_Cons_right)
  ultimately show ?case using 2 by simp
qed



lemma splitBy_nonempty: "splitBy sep s \<noteq> []"
  by (induction s) (auto split: list.splits)

lemma splitBy_no_sep: "\<forall>x \<in> set s. \<not> sep x \<Longrightarrow> splitBy sep s = [s]"
  by (induction s) auto

lemma splitBy_append_sep:
  "\<forall>x \<in> set s. \<not> sep x \<Longrightarrow> sep c \<Longrightarrow> splitBy sep (s @ c # t) = s # splitBy sep t"
  by (induction s) auto



section \<open>Properties of the detector\<close>

lemma firstTruthy_Some: "firstTruthy f xs = Some r \<Longrightarrow> \<exists>x \<in> set xs. f x = Some r"
  by (induction xs) (auto split: option.splits)

lemma find_parent:
  "findNode position ancestors node = Some (tok, chain) \<Longrightarrow>
     (tok = node \<and> chain = ancestors) \<or> (\<exists>p rest. chain = p # rest \<and> tok \<in> set (children p))"
proof (induction position ancestors node rule: findNode.induct)
  case (1 position ancestors node)
  from "1.prems" have inr: "position \<ge> getStart node \<and> position < getEnd node"
    by (simp add: findNode.simps split: if_splits)
  show ?case
  proof (cases "forEachChild node (findNode position (node # ancestors))")
    case None
    with "1.prems" inr show ?thesis by (simp add: findNode.simps)
  next
    case (Some childResult)
    with "1.prems" inr have cr: "childResult = (tok, chain)" by (simp add: findNode.simps)
    from Some obtain c where c: "c \<in> set (children node)" "findNode position (node # ancestors) c = Some childResult"
      unfolding forEachChild_def by (auto dest: firstTruthy_Some)
    from "1.IH"[OF inr c(1)] c(2) cr c(1) show ?thesis by auto
  qed
qed


lemma findTokenAtPosition_parent:
  assumes "findTokenAtPosition sf position = Some (NodeToken tok chain)"
  shows "chain = [] \<or> (\<exists>p rest. chain = p # rest \<and> tok \<in> set (children p))"
proof -
  from assms obtain st where "findNode position [] st = Some (tok, chain)"
    unfolding findTokenAtPosition_def
    by (auto split: if_splits option.splits dest!: firstTruthy_Some)
  from find_parent[OF this] show ?thesis by auto
qed

lemma detectRouteString_Some:
  assumes "detectRouteString sf position = Some info"
  obtains tok chain t where
    "findTokenAtPosition sf position = Some (NodeToken tok chain)"
    "isStringLiteral tok" "isRoutePropertyValue tok chain" "isWithinPathCall (tok # chain)"
    "textOf tok = Some t" "take 1 t = ''/''"
    "info = \<lparr>route = t, info_start = getStart tok, info_end = getEnd tok,
             span = \<lparr>span_start = getStart tok, span_length = getEnd tok - getStart tok\<rparr>\<rparr>"
  using assms unfolding detectRouteString_def
  by (auto split: option.splits Token.splits if_splits)


lemma routeCallFile_detect:
  "detectRouteString routeCallFile 20
     = Some \<lparr>route = ''/users/[id]'', info_start = 15, info_end = 28,
              span = \<lparr>span_start = 15, span_length = 13\<rparr>\<rparr>"
  by code_simp


text \<open>
  Claim C4.  A detection succeeds only on a string literal that is the value of a
  property assignment whose name is the identifier \<^verbatim>\<open>route\<close>, or the initializer of a
  shorthand assignment named \<^verbatim>\<open>route\<close>; a token whose parent is a property
  assignment, full or shorthand, with any other name gives null.
\<close>

theorem detectRouteString_route_property:
  "(detectRouteString sf position = Some info \<longrightarrow>
      (\<exists>s e t parent rest.
          findTokenAtPosition sf position = Some (NodeToken (StringLiteral s e t) (parent # rest))
        \<and> route info = t
        \<and> ((\<exists>ps pe ns ne. parent = PropertyAssignment ps pe (Identifier ns ne ''route'') (StringLiteral s e t))
           \<or> (\<exists>ps pe nm. parent = ShorthandPropertyAssignment ps pe nm (Some (StringLiteral s e t))
                  \<and> textOf nm = Some ''route''))))
   \<and> (findTokenAtPosition sf position = Some (NodeToken tok (PropertyAssignment ps pe nm ini # rest))
        \<and> textOf nm \<noteq> Some ''route'' \<longrightarrow> detectRouteString sf position = None)
   \<and> (findTokenAtPosition sf position = Some (NodeToken tok (ShorthandPropertyAssignment ps pe nm ini' # rest))
        \<and> textOf nm \<noteq> Some ''route'' \<longrightarrow> detectRouteString sf position = None)"
proof (intro conjI impI)
  assume d: "detectRouteString sf position = Some info"
  from d obtain tok chain t where
    f: "findTokenAtPosition sf position = Some (NodeToken tok chain)" and
    lit: "isStringLiteral tok" and rp: "isRoutePropertyValue tok chain" and
    tx: "textOf tok = Some t" and sl: "take 1 t = ''/''" and
    info: "info = \<lparr>route = t, info_start = getStart tok, info_end = getEnd tok,
             span = \<lparr>span_start = getStart tok, span_length = getEnd tok - getStart tok\<rparr>\<rparr>"
    by (rule detectRouteString_Some)
  from lit tx obtain s e where tok: "tok = StringLiteral s e t" by (cases tok) auto
  from rp obtain parent rest where chain: "chain = parent # rest"
    unfolding isRoutePropertyValue_def by (cases chain) auto
  from findTokenAtPosition_parent[OF f] chain have child: "tok \<in> set (children parent)" by auto
  have "(\<exists>ps pe ns ne. parent = PropertyAssignment ps pe (Identifier ns ne ''route'') tok)
      \<or> (\<exists>ps pe nm. parent = ShorthandPropertyAssignment ps pe nm (Some tok) \<and> textOf nm = Some ''route'')"
  proof (cases parent)
    case (PropertyAssignment ps pe nm ini)
    with rp chain have "isIdentifier nm" "textOf nm = Some ''route''"
      unfolding isRoutePropertyValue_def by auto
    then obtain ns ne where "nm = Identifier ns ne ''route''" by (cases nm) auto
    with child PropertyAssignment tok show ?thesis by auto
  next
    case (ShorthandPropertyAssignment ps pe nm ini)
    with rp chain have nm: "textOf nm = Some ''route''"
      unfolding isRoutePropertyValue_def by auto
    have "tok \<noteq> nm" using nm tx sl by auto
    with child ShorthandPropertyAssignment have "ini = Some tok" by (auto split: option.splits)
    with ShorthandPropertyAssignment nm show ?thesis by auto
  qed (use rp chain in \<open>auto simp: isRoutePropertyValue_def\<close>)
  with f tok chain info
  show "\<exists>s e t parent rest.
          findTokenAtPosition sf position = Some (NodeToken (StringLiteral s e t) (parent # rest))
        \<and> route info = t
        \<and> ((\<exists>ps pe ns ne. parent = PropertyAssignment ps pe (Identifier ns ne ''route'') (StringLiteral s e t))
           \<or> (\<exists>ps pe nm. parent = ShorthandPropertyAssignment ps pe nm (Some (StringLiteral s e t))
                  \<and> textOf nm = Some ''route''))"
    by auto
next
  assume "findTokenAtPosition sf position = Some (NodeToken tok (PropertyAssignment ps pe nm ini # rest))
        \<and> textOf nm \<noteq> Some ''route''"
  then show "detectRouteString sf position = None"
    unfolding detectRouteString_def isRoutePropertyValue_def by simp
next
  assume "findTokenAtPosition sf position = Some (NodeToken tok (ShorthandPropertyAssignment ps pe nm ini' # rest))
        \<and> textOf nm \<noteq> Some ''route''"
  then show "detectRouteString sf position = None"
    unfolding detectRouteString_def isRoutePropertyValue_def by simp
qed


theorem detectRouteString_route_property_witness:
  "(\<exists>s e t parent rest.
       findTokenAtPosition routeCallFile 20 = Some (NodeToken (StringLiteral s e t) (parent # rest))
     \<and> t = ''/users/[id]''
     \<and> ((\<exists>ps pe ns ne. parent = PropertyAssignment ps pe (Identifier ns ne ''route'') (StringLiteral s e t))
        \<or> (\<exists>ps pe nm. parent = ShorthandPropertyAssignment ps pe nm (Some (StringLiteral s e t))
               \<and> textOf nm = Some ''route'')))
   \<and> detectRouteString pathCallFile 16 = None"
proof -
  have tok: "findTokenAtPosition pathCallFile 16
     = Some (NodeToken (StringLiteral 14 22 ''/users'')
         (PropertyAssignment 8 22 (Identifier 8 12 ''path'') (StringLiteral 14 22 ''/users'')
          # [OtherNode 6 24
               [PropertyAssignment 8 22 (Identifier 8 12 ''path'') (StringLiteral 14 22 ''/users'')],
             CallExpression 0 25 (Identifier 0 5 ''$path'') []
               [OtherNode 6 24
                  [PropertyAssignment 8 22 (Identifier 8 12 ''path'') (StringLiteral 14 22 ''/users'')]],
             OtherNode 0 25
               [CallExpression 0 25 (Identifier 0 5 ''$path'') []
                  [OtherNode 6 24
                     [PropertyAssignment 8 22 (Identifier 8 12 ''path'')
                        (StringLiteral 14 22 ''/users'')]]]]))"
    by code_simp
  have nm: "textOf (Identifier 8 12 ''path'') \<noteq> Some ''route''" by simp
  from detectRouteString_route_property
         [of routeCallFile 20
             "\<lparr>route = ''/users/[id]'', info_start = 15, info_end = 28,
               span = \<lparr>span_start = 15, span_length = 13\<rparr>\<rparr>"]
       routeCallFile_detect
  have 1: "\<exists>s e t parent rest.
       findTokenAtPosition routeCallFile 20 = Some (NodeToken (StringLiteral s e t) (parent # rest))
     \<and> t = ''/users/[id]''
     \<and> ((\<exists>ps pe ns ne. parent = PropertyAssignment ps pe (Identifier ns ne ''route'') (StringLiteral s e t))
        \<or> (\<exists>ps pe nm. parent = ShorthandPropertyAssignment ps pe nm (Some (StringLiteral s e t))
               \<and> textOf nm = Some ''route''))"
    by simp
  from detectRouteString_route_property [of pathCallFile 16] tok nm
  have 2: "detectRouteString pathCallFile 16 = None" by blast
  from 1 2 show ?thesis by blast
qed







section \<open>Properties of the grouping search\<close>

lemma joinWith_nonempty: "x \<in> set xs \<Longrightarrow> x \<noteq> [] \<Longrightarrow> joinWith sep xs \<noteq> []"
  by (induction sep xs rule: joinWith.induct) auto

lemma normalize_nonempty: "normalizePath p \<noteq> []"
  by (auto simp: normalizePath_def Let_def)

lemma join_nonempty: "join args \<noteq> []"
  by (simp add: join_def Let_def normalize_nonempty)

lemma findRouteTypeFile_truthy:
  "findRouteTypeFile typescript dir config exts = Some p \<Longrightarrow> p \<noteq> []"
  by (induction exts) (auto simp: Let_def join_nonempty split: if_splits)

lemma search_no_throw:
  "searchDir n typescript dir segs config \<noteq> Throws e"
  "searchEntries n typescript dir segs config entries \<noteq> Throws e"
proof (induction n typescript dir segs config and n typescript dir segs config entries
       arbitrary: e and e rule: searchDir_searchEntries.induct)
  case (1 typescript currentDir remainingSegments config)
  show ?case by simp
next
  case (2 n typescript currentDir config)
  show ?case by simp
next
  case (3 n typescript currentDir nextSegment rest config)
  then show ?case
    by (auto simp: Let_def split: outcome.splits option.splits if_splits)
next
  case (4 n typescript currentDir remainingSegments config)
  show ?case by simp
next
  case (5 n typescript currentDir remainingSegments config entry entries)
  then show ?case
    by (auto split: outcome.splits option.splits if_splits)
qed


lemma listingFailuresAsEmpty_simps [simp]:
  "fileExists (listingFailuresAsEmpty t) = fileExists t"
  "directoryExists (listingFailuresAsEmpty t) = directoryExists t"
  "readDirectory (listingFailuresAsEmpty t) d
     = (case readDirectory t d of None \<Rightarrow> Some [] | Some entries \<Rightarrow> Some entries)"
  by (simp_all add: listingFailuresAsEmpty_def)

lemma findRouteTypeFile_listing:
  "findRouteTypeFile (listingFailuresAsEmpty t) dir config exts = findRouteTypeFile t dir config exts"
  by (induction exts) (simp_all add: Let_def)

lemma search_listing_failure:
  "searchDir n typescript dir segs config
     = searchDir n (listingFailuresAsEmpty typescript) dir segs config"
  "searchEntries n typescript dir segs config entries
     = searchEntries n (listingFailuresAsEmpty typescript) dir segs config entries"
proof (induction n typescript dir segs config and n typescript dir segs config entries
       rule: searchDir_searchEntries.induct)
  case (1 typescript currentDir remainingSegments config)
  show ?case by simp
next
  case (2 n typescript currentDir config)
  show ?case by (simp only: searchDir.simps findRouteTypeFile_listing)
next
  case (3 n typescript currentDir nextSegment rest config)
  show ?case
  proof (cases "nextSegment = []")
    case True
    then show ?thesis by simp
  next
    case False
    let ?d = "join [currentDir, nextSegment]"
    have direct: "directoryExists typescript ?d \<Longrightarrow>
        searchDir n typescript ?d rest config
          = searchDir n (listingFailuresAsEmpty typescript) ?d rest config"
      using "3.IH"(1)[OF False refl] by simp
    have scan: "searchEntries n typescript currentDir (nextSegment # rest) config entries
          = searchEntries n (listingFailuresAsEmpty typescript) currentDir (nextSegment # rest) config entries"
      if "readDirectory typescript currentDir = Some entries"
         "(if directoryExists typescript ?d then searchDir n typescript ?d rest config else Returns None)
            = Returns result" "\<not> truthy result" for entries result
      using "3.IH"(2)[OF False refl that(2) that(3) that(1)] .
    show ?thesis
    proof (cases "if directoryExists typescript ?d then searchDir n typescript ?d rest config else Returns None")
      case OutOfFuel
      with False direct show ?thesis by (auto simp: Let_def split: if_splits)
    next
      case (Throws e)
      then have False using search_no_throw(1) by (auto split: if_splits)
      then show ?thesis ..
    next
      case (Returns result)
      have same: "(if directoryExists typescript ?d
                   then searchDir n (listingFailuresAsEmpty typescript) ?d rest config else Returns None)
                  = Returns result"
        using Returns direct by (auto split: if_splits)
      show ?thesis
      proof (cases "truthy result")
        case True
        with False Returns same show ?thesis by (simp add: Let_def)
      next
        case nt: False
        show ?thesis
        proof (cases "readDirectory typescript currentDir")
          case None
          with False Returns same nt show ?thesis by (simp add: Let_def)
        next
          case (Some entries)
          from scan[OF Some Returns nt] False Returns same nt Some
          show ?thesis by (simp add: Let_def)
        qed
      qed
    qed
  qed
next
  case (4 n typescript currentDir remainingSegments config)
  show ?case by simp
next
  case (5 n typescript currentDir remainingSegments config entry entries)
  then show ?case
    by (auto split: outcome.splits option.splits if_splits)
qed


lemma search_returns:
  assumes all: "\<forall>d. groupNesting k typescript d"
  shows "groupNesting j typescript dir \<Longrightarrow> j \<le> k \<Longrightarrow> length segs * (k + 1) + j < n
           \<Longrightarrow> \<exists>r. searchDir n typescript dir segs config = Returns r"
    and "\<forall>g \<in> set (filter isRouteGroup (List.map_filter dirNameOf entries)).
            \<exists>j'. j' \<le> k \<and> groupNesting j' typescript (join [dir, g]) \<and> length segs * (k + 1) + j' < n
           \<Longrightarrow> \<exists>r. searchEntries n typescript dir segs config entries = Returns r"
  using all
proof (induction n typescript dir segs config and n typescript dir segs config entries
       arbitrary: j rule: searchDir_searchEntries.induct)
  case (1 typescript currentDir remainingSegments config)
  then show ?case by simp
next
  case (2 n typescript currentDir config)
  show ?case by simp
next
  case (3 n typescript currentDir nextSegment rest config)
  show ?case
  proof (cases "nextSegment = []")
    case True
    then show ?thesis by simp
  next
    case False
    let ?d = "join [currentDir, nextSegment]"
    let ?direct = "if directoryExists typescript ?d then searchDir n typescript ?d rest config
                   else Returns None"
    have fuel: "length rest * (k + 1) + k < n"
      using "3.prems"(3) by simp
    have "groupNesting k typescript ?d" using "3.prems"(4) by simp
    from "3.IH"(1)[OF False refl _ this _ fuel "3.prems"(4)]
    obtain result where direct: "?direct = Returns result" by (cases "directoryExists typescript ?d") auto
    show ?thesis
    proof (cases "truthy result")
      case True
      with False direct show ?thesis by (simp add: Let_def)
    next
      case nt: False
      show ?thesis
      proof (cases "readDirectory typescript currentDir")
        case None
        with False direct nt show ?thesis by (simp add: Let_def)
      next
        case (Some entries)
        have groups: "filter isRouteGroup (List.map_filter dirNameOf entries) = groupDirs typescript currentDir"
          using Some by (simp add: groupDirs_def listDirectoryEntries_def)
        have "\<forall>g \<in> set (filter isRouteGroup (List.map_filter dirNameOf entries)).
            \<exists>j'. j' \<le> k \<and> groupNesting j' typescript (join [currentDir, g])
                 \<and> length (nextSegment # rest) * (k + 1) + j' < n"
        proof (cases j)
          case 0
          with "3.prems"(1) groups show ?thesis by simp
        next
          case (Suc j')
          with "3.prems"(1,2,3) groups show ?thesis
            by (intro ballI exI[of _ j']) auto
        qed
        from "3.IH"(2)[OF False refl direct nt Some this "3.prems"(4)]
        obtain r where "searchEntries n typescript currentDir (nextSegment # rest) config entries = Returns r"
          by blast
        with False direct nt Some show ?thesis by (simp add: Let_def)
      qed
    qed
  qed
next
  case (4 n typescript currentDir remainingSegments config)
  show ?case by simp
next
  case (5 n typescript currentDir remainingSegments config entry entries)
  show ?case
  proof (cases "dirNameOf entry")
    case None
    with "5.prems" have "\<forall>g \<in> set (filter isRouteGroup (List.map_filter dirNameOf entries)).
            \<exists>j'. j' \<le> k \<and> groupNesting j' typescript (join [currentDir, g])
                 \<and> length remainingSegments * (k + 1) + j' < n"
      by (simp add: map_filter_simps)
    from "5.IH"(1)[OF None this "5.prems"(2)] None show ?thesis by simp
  next
    case (Some dirName)
    have rest: "\<forall>g \<in> set (filter isRouteGroup (List.map_filter dirNameOf entries)).
            \<exists>j'. j' \<le> k \<and> groupNesting j' typescript (join [currentDir, g])
                 \<and> length remainingSegments * (k + 1) + j' < n"
      using "5.prems"(1) Some by (simp add: map_filter_simps)
    show ?thesis
    proof (cases "isRouteGroup dirName")
      case False
      from "5.IH"(4)[OF Some False rest "5.prems"(2)] Some False show ?thesis by simp
    next
      case True
      with "5.prems"(1) Some obtain j' where
        j': "j' \<le> k" "groupNesting j' typescript (join [currentDir, dirName])"
            "length remainingSegments * (k + 1) + j' < n"
        by (auto simp: map_filter_simps)
      from "5.IH"(2)[OF Some True j'(2) j'(1) j'(3) "5.prems"(2)]
      obtain result where
        res: "searchDir n typescript (join [currentDir, dirName]) remainingSegments config = Returns result"
        by blast
      show ?thesis
      proof (cases "truthy result")
        case t: True
        with Some True res show ?thesis by simp
      next
        case f: False
        from "5.IH"(3)[OF Some True res f rest "5.prems"(2)] Some True res f show ?thesis by simp
      qed
    qed
  qed
qed

lemma groupedProject_login:
  "findRouteTypeWithGroups 4 groupedProject ''/login'' ''/project'' defaultConfig
     = Returns (Some ''/project/src/app/(shop)/login/routeType.ts'')"
  by code_simp

lemma groupedProject_groupDirs:
  "groupDirs groupedProject d
     = (if d = ''/project/src/app'' then [''(auth)'', ''(shop)''] else [])"
proof -
  have names: "dirNameOf ''(auth)/'' = Some ''(auth)''" "dirNameOf ''(shop)/'' = Some ''(shop)''"
    by code_simp+
  have grp: "isRouteGroup ''(auth)''" "isRouteGroup ''(shop)''"
    by code_simp+
  show ?thesis
    by (simp add: groupDirs_def listDirectoryEntries_def groupedProject_def names grp map_filter_simps)
qed

lemma groupedProject_nesting: "groupNesting (Suc 0) groupedProject d"
proof (cases "d = ''/project/src/app''")
  case True
  have auth: "join [''/project/src/app'', ''(auth)''] = ''/project/src/app/(auth)''"
    and shop: "join [''/project/src/app'', ''(shop)''] = ''/project/src/app/(shop)''"
    by code_simp+
  from True show ?thesis
    by (simp add: groupedProject_groupDirs auth shop)
next
  case False
  then show ?thesis by (simp add: groupedProject_groupDirs)
qed

text \<open>
  Claim C7.  The grouping search never ends in an exception; a directory whose listing
  fails is searched exactly as if its listing were empty, so that at such a directory
  the result is the direct descent's result or null; and on a file system whose route
  groups nest to a bounded depth the search returns, given fuel for that depth.
\<close>

theorem listing_failure_handled:
  "findRouteTypeWithGroups fuel typescript r projectPath config \<noteq> Throws e
   \<and> findRouteTypeWithGroups fuel typescript r projectPath config
       = findRouteTypeWithGroups fuel (listingFailuresAsEmpty typescript) r projectPath config
   \<and> (readDirectory typescript dir = None \<and> seg \<noteq> [] \<longrightarrow>
         searchDir (Suc n) typescript dir (seg # rest) config
           = (case (if directoryExists typescript (join [dir, seg])
                    then searchDir n typescript (join [dir, seg]) rest config
                    else Returns None) of
                Returns result \<Rightarrow> if truthy result then Returns result else Returns None
              | other \<Rightarrow> other))
   \<and> ((\<forall>d. groupNesting k typescript d) \<and> (length (parseRouteSegments r) + 1) * (k + 1) \<le> fuel
        \<longrightarrow> (\<exists>res. findRouteTypeWithGroups fuel typescript r projectPath config = Returns res))"
proof (intro conjI impI)
  show "findRouteTypeWithGroups fuel typescript r projectPath config \<noteq> Throws e"
    by (simp add: findRouteTypeWithGroups_def Let_def search_no_throw(1))
  show "findRouteTypeWithGroups fuel typescript r projectPath config
       = findRouteTypeWithGroups fuel (listingFailuresAsEmpty typescript) r projectPath config"
    unfolding findRouteTypeWithGroups_def Let_def by (rule search_listing_failure(1))
next
  assume "readDirectory typescript dir = None \<and> seg \<noteq> []"
  then show "searchDir (Suc n) typescript dir (seg # rest) config
           = (case (if directoryExists typescript (join [dir, seg])
                    then searchDir n typescript (join [dir, seg]) rest config
                    else Returns None) of
                Returns result \<Rightarrow> if truthy result then Returns result else Returns None
              | other \<Rightarrow> other)"
    by (auto simp: Let_def split: outcome.splits)
next
  assume a: "(\<forall>d. groupNesting k typescript d) \<and> (length (parseRouteSegments r) + 1) * (k + 1) \<le> fuel"
  then have all: "\<forall>d. groupNesting k typescript d" by simp
  have "length (escapedSegments (parseRouteSegments r)) * (k + 1) + k < fuel"
    using a by (simp add: escapedSegments_def)
  from search_returns(1)[OF all _ _ this, of "join [projectPath, appDir config]" config] all
  show "\<exists>res. findRouteTypeWithGroups fuel typescript r projectPath config = Returns res"
    by (simp add: findRouteTypeWithGroups_def Let_def)
qed

theorem listing_failure_handled_witness:
  "readDirectory groupedProject ''/project/src/app/(auth)'' = None
   \<and> (\<exists>res. findRouteTypeWithGroups 4 groupedProject ''/login'' ''/project'' defaultConfig = Returns res)
   \<and> findRouteTypeWithGroups 4 (listingFailuresAsEmpty groupedProject) ''/login'' ''/project'' defaultConfig
       = Returns (Some ''/project/src/app/(shop)/login/routeType.ts'')
   \<and> searchDir (Suc 1) groupedProject ''/project/src/app/(auth)'' [''login''] defaultConfig = Returns None"
proof -
  have fails: "readDirectory groupedProject ''/project/src/app/(auth)'' = None"
    by (simp add: groupedProject_def)
  have segs: "(length (parseRouteSegments ''/login'') + 1) * (Suc 0 + 1) \<le> 4"
    by (simp add: parseRouteSegments_def)
  have nodir: "\<not> directoryExists groupedProject (join [''/project/src/app/(auth)'', ''login''])"
    by code_simp
  note inst = listing_failure_handled
         [of 4 groupedProject "''/login''" "''/project''" defaultConfig _
             "''/project/src/app/(auth)''" "''login''" 1 "[]" "Suc 0"]
  have all: "\<forall>d. groupNesting (Suc 0) groupedProject d"
    using groupedProject_nesting by blast
  from inst all segs
  have 1: "\<exists>res. findRouteTypeWithGroups 4 groupedProject ''/login'' ''/project'' defaultConfig = Returns res"
    by blast
  from inst groupedProject_login
  have 2: "findRouteTypeWithGroups 4 (listingFailuresAsEmpty groupedProject) ''/login'' ''/project'' defaultConfig
       = Returns (Some ''/project/src/app/(shop)/login/routeType.ts'')"
    by simp
  from inst fails
  have "searchDir (Suc 1) groupedProject ''/project/src/app/(auth)'' [''login''] defaultConfig
          = (case (if directoryExists groupedProject (join [''/project/src/app/(auth)'', ''login''])
                    then searchDir 1 groupedProject (join [''/project/src/app/(auth)'', ''login'']) [] defaultConfig
                    else Returns None) of
                Returns result \<Rightarrow> if truthy result then Returns result else Returns None
              | other \<Rightarrow> other)"
    by simp
  with nodir
  have 3: "searchDir (Suc 1) groupedProject ''/project/src/app/(auth)'' [''login''] defaultConfig
             = Returns None"
    by simp
  from fails 1 2 3 show ?thesis by blast
qed

subsection \<open>Case analysis of one step of the search\<close>

lemma searchDir_Cons_cases:
  assumes "searchDir (Suc n) typescript dir (seg # rest) config = Returns r"
  obtains
    (blank) "seg = []" "r = None"
  | (direct) "seg \<noteq> []" "directoryExists typescript (join [dir, seg])"
      "searchDir n typescript (join [dir, seg]) rest config = Returns r" "truthy r"
  | (unreadable) result where "seg \<noteq> []"
      "(if directoryExists typescript (join [dir, seg])
        then searchDir n typescript (join [dir, seg]) rest config else Returns None) = Returns result"
      "\<not> truthy result" "readDirectory typescript dir = None" "r = None"
  | (scan) result entries where "seg \<noteq> []"
      "(if directoryExists typescript (join [dir, seg])
        then searchDir n typescript (join [dir, seg]) rest config else Returns None) = Returns result"
      "\<not> truthy result" "readDirectory typescript dir = Some entries"
      "searchEntries n typescript dir (seg # rest) config entries = Returns r"
proof (cases "seg = []")
  case True
  with assms have "r = None" by simp
  with True show ?thesis by (rule blank)
next
  case False
  define direct where "direct = (if directoryExists typescript (join [dir, seg])
        then searchDir n typescript (join [dir, seg]) rest config else Returns None)"
  define body where "body = (case readDirectory typescript dir of
                       None \<Rightarrow> Throws ReadDirectoryFailed
                     | Some entries \<Rightarrow> searchEntries n typescript dir (seg # rest) config entries)"
  from assms False have eq:
    "(case direct of OutOfFuel \<Rightarrow> OutOfFuel | Throws e \<Rightarrow> Throws e
      | Returns result \<Rightarrow> if truthy result then Returns result
          else (case body of OutOfFuel \<Rightarrow> OutOfFuel | Throws e \<Rightarrow> Returns None
                | Returns found \<Rightarrow> Returns found)) = Returns r"
    unfolding direct_def body_def by (simp only: searchDir.simps Let_def if_False)
  show ?thesis
  proof (cases direct)
    case OutOfFuel
    with eq show ?thesis by simp
  next
    case (Throws e)
    with eq show ?thesis by simp
  next
    case (Returns result)
    show ?thesis
    proof (cases "truthy result")
      case True
      with eq Returns have r: "r = result" by simp
      from True have "result \<noteq> None" by (cases result) auto
      with Returns have "directoryExists typescript (join [dir, seg])"
        unfolding direct_def by (auto split: if_splits)
      with Returns r True False show ?thesis
        unfolding direct_def by (intro direct) auto
    next
      case nt: False
      with eq Returns have eq2: "(case body of OutOfFuel \<Rightarrow> OutOfFuel | Throws e \<Rightarrow> Returns None
                | Returns found \<Rightarrow> Returns found) = Returns r" by simp
      show ?thesis
      proof (cases "readDirectory typescript dir")
        case None
        with eq2 have "r = None" by (simp add: body_def)
        with False Returns nt None show ?thesis
          unfolding direct_def by (intro unreadable) auto
      next
        case (Some entries)
        with eq2 have "searchEntries n typescript dir (seg # rest) config entries = Returns r"
          using search_no_throw(2) [of n typescript dir "seg # rest" config entries]
          by (cases "searchEntries n typescript dir (seg # rest) config entries")
             (auto simp: body_def)
        with False Returns nt Some show ?thesis
          unfolding direct_def by (intro scan) auto
      qed
    qed
  qed
qed

lemma searchEntries_Cons_cases:
  assumes "searchEntries n typescript dir segs config (entry # entries) = Returns r"
  obtains
    (no_name) "dirNameOf entry = None"
      "searchEntries n typescript dir segs config entries = Returns r"
  | (no_group) dirName where "dirNameOf entry = Some dirName" "\<not> isRouteGroup dirName"
      "searchEntries n typescript dir segs config entries = Returns r"
  | (hit) dirName where "dirNameOf entry = Some dirName" "isRouteGroup dirName"
      "searchDir n typescript (join [dir, dirName]) segs config = Returns r" "truthy r"
  | (miss) dirName result where "dirNameOf entry = Some dirName" "isRouteGroup dirName"
      "searchDir n typescript (join [dir, dirName]) segs config = Returns result" "\<not> truthy result"
      "searchEntries n typescript dir segs config entries = Returns r"
proof (cases "dirNameOf entry")
  case None
  with assms show ?thesis by (intro no_name) auto
next
  case (Some dirName)
  show ?thesis
  proof (cases "isRouteGroup dirName")
    case False
    with assms Some show ?thesis by (intro no_group) auto
  next
    case True
    show ?thesis
    proof (cases "searchDir n typescript (join [dir, dirName]) segs config")
      case OutOfFuel
      with assms Some True show ?thesis by simp
    next
      case (Throws e)
      with assms Some True show ?thesis by simp
    next
      case (Returns result)
      show ?thesis
      proof (cases "truthy result")
        case t: True
        with assms Some True Returns show ?thesis by (intro hit) auto
      next
        case f: False
        with assms Some True Returns show ?thesis by (intro miss) auto
      qed
    qed
  qed
qed

lemma search_truthy:
  "searchDir n typescript dir segs config = Returns (Some p) \<Longrightarrow> p \<noteq> []"
  "searchEntries n typescript dir segs config entries = Returns (Some p) \<Longrightarrow> p \<noteq> []"
proof (induction n typescript dir segs config and n typescript dir segs config entries
       rule: searchDir_searchEntries.induct)
  case (2 n typescript currentDir config)
  then have "findRouteTypeFile typescript currentDir config [''ts'', ''tsx''] = Some p"
    by (simp only: searchDir.simps outcome.inject)
  then show ?case by (rule findRouteTypeFile_truthy)
next
  case (3 n typescript currentDir nextSegment rest config)
  from "3.prems" show ?case
  proof (cases rule: searchDir_Cons_cases)
    case direct
    then show ?thesis by simp
  next
    case (scan result entries)
    from "3.IH"(2)[OF scan(1) refl scan(2,3,4,5)] show ?thesis .
  qed simp_all
next
  case (5 n typescript currentDir remainingSegments config entry entries)
  from "5.prems" show ?case
  proof (cases rule: searchEntries_Cons_cases)
    case no_name
    from "5.IH"(1)[OF this] show ?thesis .
  next
    case (no_group dirName)
    from "5.IH"(4)[OF this] show ?thesis .
  next
    case (hit dirName)
    then show ?thesis by simp
  next
    case (miss dirName result)
    from "5.IH"(3)[OF this] show ?thesis .
  qed
qed simp_all


lemma searchDir_Cons_direct:
  assumes "seg \<noteq> []" "directoryExists typescript (join [dir, seg])"
    "searchDir n typescript (join [dir, seg]) rest config = Returns r" "truthy r"
  shows "searchDir (Suc n) typescript dir (seg # rest) config = Returns r"
  using assms by (simp add: Let_def)

lemma searchDir_Cons_unreadable:
  assumes "seg \<noteq> []"
    "(if directoryExists typescript (join [dir, seg])
      then searchDir n typescript (join [dir, seg]) rest config else Returns None) = Returns result"
    "\<not> truthy result" "readDirectory typescript dir = None"
  shows "searchDir (Suc n) typescript dir (seg # rest) config = Returns None"
  using assms(1,3,4) by (simp only: searchDir.simps Let_def if_False assms(2)) simp

lemma searchDir_Cons_scan:
  assumes "seg \<noteq> []"
    "(if directoryExists typescript (join [dir, seg])
      then searchDir n typescript (join [dir, seg]) rest config else Returns None) = Returns result"
    "\<not> truthy result" "readDirectory typescript dir = Some entries"
    "searchEntries n typescript dir (seg # rest) config entries = Returns r"
  shows "searchDir (Suc n) typescript dir (seg # rest) config = Returns r"
  using assms(1,3,4,5) by (simp only: searchDir.simps Let_def if_False assms(2)) simp

lemma search_fuel_mono:
  "searchDir n typescript dir segs config = Returns r \<Longrightarrow> n \<le> m
     \<Longrightarrow> searchDir m typescript dir segs config = Returns r"
  "searchEntries n typescript dir segs config entries = Returns r \<Longrightarrow> n \<le> m
     \<Longrightarrow> searchEntries m typescript dir segs config entries = Returns r"
proof (induction n typescript dir segs config and n typescript dir segs config entries
       arbitrary: m r and m r rule: searchDir_searchEntries.induct)
  case (1 typescript currentDir remainingSegments config)
  then show ?case by simp
next
  case (2 n typescript currentDir config)
  then obtain m' where "m = Suc m'" by (cases m) auto
  with 2 show ?case by (simp only: searchDir.simps)
next
  case (3 n typescript currentDir nextSegment rest config)
  from "3.prems"(2) obtain m' where m: "m = Suc m'" and le: "n \<le> m'" by (cases m) auto
  let ?d = "join [currentDir, nextSegment]"
  have direct_mono: "(if directoryExists typescript ?d
           then searchDir m' typescript ?d rest config else Returns None) = Returns result"
    if "nextSegment \<noteq> []" and "(if directoryExists typescript ?d
           then searchDir n typescript ?d rest config else Returns None) = Returns result"
    for result
    using that "3.IH"(1)[OF that(1) refl _ _ le] by (auto split: if_splits)
  from "3.prems"(1) show ?case unfolding m
  proof (cases rule: searchDir_Cons_cases)
    case blank
    then show "searchDir (Suc m') typescript currentDir (nextSegment # rest) config = Returns r"
      by simp
  next
    case direct
    from "3.IH"(1)[OF direct(1) refl direct(2,3) le] direct
    show "searchDir (Suc m') typescript currentDir (nextSegment # rest) config = Returns r"
      by (intro searchDir_Cons_direct)
  next
    case (unreadable result)
    from searchDir_Cons_unreadable[OF unreadable(1) direct_mono[OF unreadable(1,2)] unreadable(3,4)]
      unreadable(5)
    show "searchDir (Suc m') typescript currentDir (nextSegment # rest) config = Returns r"
      by simp
  next
    case (scan result entries)
    from "3.IH"(2)[OF scan(1) refl scan(2,3,4,5) le]
    have "searchEntries m' typescript currentDir (nextSegment # rest) config entries = Returns r" .
    from searchDir_Cons_scan[OF scan(1) direct_mono[OF scan(1,2)] scan(3,4) this]
    show "searchDir (Suc m') typescript currentDir (nextSegment # rest) config = Returns r" .
  qed
next
  case (4 n typescript currentDir remainingSegments config)
  then show ?case by simp
next
  case (5 n typescript currentDir remainingSegments config entry entries)
  from "5.prems"(1) show ?case
  proof (cases rule: searchEntries_Cons_cases)
    case no_name
    from "5.IH"(1)[OF no_name "5.prems"(2)] no_name(1) show ?thesis by simp
  next
    case (no_group dirName)
    from "5.IH"(4)[OF no_group "5.prems"(2)] no_group(1,2) show ?thesis by simp
  next
    case (hit dirName)
    from "5.IH"(2)[OF hit(1,2,3) "5.prems"(2)] hit(1,2,4) show ?thesis by simp
  next
    case (miss dirName result)
    from "5.IH"(2)[OF miss(1,2,3) "5.prems"(2)] "5.IH"(3)[OF miss "5.prems"(2)] miss(1,2,4)
    show ?thesis by simp
  qed
qed

subsection \<open>The shape of a found path\<close>

lemma steps_length: "length steps = length (consumedSegments steps) + length (groupsEntered steps)"
  by (induction steps rule: consumedSegments.induct) auto

lemma findRouteTypeFile_Some:
  "findRouteTypeFile typescript dir config [''ts'', ''tsx''] = Some p \<Longrightarrow>
     fileExists typescript p \<and>
     (p = join [dir, routeTypeFileName config @ ''.ts'']
      \<or> p = join [dir, routeTypeFileName config @ ''.tsx''])"
  by (auto simp: Let_def split: if_splits)

lemma search_path_shape:
  "searchDir n typescript dir segs config = Returns (Some p) \<Longrightarrow>
     \<exists>steps ext. (ext = ''ts'' \<or> ext = ''tsx'')
        \<and> p = join [descend dir (map stepName steps), routeTypeFileName config @ ''.'' @ ext]
        \<and> fileExists typescript p
        \<and> consumedSegments steps = segs
        \<and> list_all isRouteGroup (groupsEntered steps)"
  "searchEntries n typescript dir segs config entries = Returns (Some p) \<Longrightarrow>
     \<exists>g steps ext. (ext = ''ts'' \<or> ext = ''tsx'') \<and> isRouteGroup g
        \<and> p = join [descend dir (map stepName (Group g # steps)), routeTypeFileName config @ ''.'' @ ext]
        \<and> fileExists typescript p
        \<and> consumedSegments steps = segs
        \<and> list_all isRouteGroup (groupsEntered steps)"
proof (induction n typescript dir segs config and n typescript dir segs config entries
       rule: searchDir_searchEntries.induct)
  case (2 n typescript currentDir config)
  then have "findRouteTypeFile typescript currentDir config [''ts'', ''tsx''] = Some p"
    by (simp only: searchDir.simps outcome.inject)
  from findRouteTypeFile_Some[OF this]
  have ex: "fileExists typescript p"
    and "p = join [currentDir, routeTypeFileName config @ ''.'' @ ''ts'']
         \<or> p = join [currentDir, routeTypeFileName config @ ''.'' @ ''tsx'']"
    by auto
  then show ?case
  proof (elim disjE)
    assume "p = join [currentDir, routeTypeFileName config @ ''.'' @ ''ts'']"
    with ex show ?thesis
      by (intro exI[of _ "[]"] exI[of _ "''ts''"]) (simp add: descend_def)
  next
    assume "p = join [currentDir, routeTypeFileName config @ ''.'' @ ''tsx'']"
    with ex show ?thesis
      by (intro exI[of _ "[]"] exI[of _ "''tsx''"]) (simp add: descend_def)
  qed
next
  case (3 n typescript currentDir nextSegment rest config)
  from "3.prems" show ?case
  proof (cases rule: searchDir_Cons_cases)
    case direct
    from "3.IH"(1)[OF direct(1) refl direct(2,3)] obtain steps ext where
      s: "ext = ''ts'' \<or> ext = ''tsx''"
         "p = join [descend (join [currentDir, nextSegment]) (map stepName steps),
                    routeTypeFileName config @ ''.'' @ ext]"
         "fileExists typescript p" "consumedSegments steps = rest"
         "list_all isRouteGroup (groupsEntered steps)"
      by blast
    show ?thesis
      using s by (intro exI[of _ "Direct nextSegment # steps"] exI[of _ ext]) (simp add: descend_def)
  next
    case (scan result entries)
    from "3.IH"(2)[OF scan(1) refl scan(2,3,4,5)] obtain g steps ext where
      s: "ext = ''ts'' \<or> ext = ''tsx''" "isRouteGroup g"
         "p = join [descend currentDir (map stepName (Group g # steps)),
                    routeTypeFileName config @ ''.'' @ ext]"
         "fileExists typescript p" "consumedSegments steps = nextSegment # rest"
         "list_all isRouteGroup (groupsEntered steps)"
      by blast
    show ?thesis
      using s by (intro exI[of _ "Group g # steps"] exI[of _ ext]) simp
  qed simp_all
next
  case (5 n typescript currentDir remainingSegments config entry entries)
  from "5.prems" show ?case
  proof (cases rule: searchEntries_Cons_cases)
    case no_name
    from "5.IH"(1)[OF this] show ?thesis .
  next
    case (no_group dirName)
    from "5.IH"(4)[OF this] show ?thesis .
  next
    case (hit dirName)
    from "5.IH"(2)[OF hit(1,2,3)] obtain steps ext where
      s: "ext = ''ts'' \<or> ext = ''tsx''"
         "p = join [descend (join [currentDir, dirName]) (map stepName steps),
                    routeTypeFileName config @ ''.'' @ ext]"
         "fileExists typescript p" "consumedSegments steps = remainingSegments"
         "list_all isRouteGroup (groupsEntered steps)"
      by blast
    show ?thesis
      using s hit(2) by (intro exI[of _ dirName] exI[of _ steps] exI[of _ ext]) (simp add: descend_def)
  next
    case (miss dirName result)
    from "5.IH"(3)[OF this] show ?thesis .
  qed
qed simp_all

lemma login_segments: "escapedSegments (parseRouteSegments ''/login'') = [''login'']"
  by (simp add: escapedSegments_def parseRouteSegments_def)

text \<open>
  Claim C5, as stated: in a found path the directories that are not named like a route
  group are exactly the route's decoded segments.  The route \<^verbatim>\<open>/(auth)\<close> has the one
  segment \<^verbatim>\<open>(auth)\<close>; the search descends directly into the directory of that name and
  finds the file there, and no list of directories filtered for names that are not
  groups can equal the segment list.
\<close>

theorem group_named_segment_counterexample:
  "findRouteTypeWithGroups 2 (filesOnly [''/project/src/app/(auth)/routeType.ts''])
       ''/(auth)'' ''/project'' defaultConfig
     = Returns (Some ''/project/src/app/(auth)/routeType.ts'')
   \<and> ''/project/src/app/(auth)/routeType.ts''
       = join [descend (join [''/project'', appDir defaultConfig]) [''(auth)''],
               routeTypeFileName defaultConfig @ ''.'' @ ''ts'']
   \<and> filter (\<lambda>d. \<not> isRouteGroup d) [''(auth)''] = []
   \<and> escapedSegments (parseRouteSegments ''/(auth)'') = [''(auth)'']
   \<and> \<not> (\<exists>dirs ext.
          ''/project/src/app/(auth)/routeType.ts''
            = join [descend (join [''/project'', appDir defaultConfig]) dirs,
                    routeTypeFileName defaultConfig @ ''.'' @ ext]
          \<and> filter (\<lambda>d. \<not> isRouteGroup d) dirs = escapedSegments (parseRouteSegments ''/(auth)''))"
proof -
  have 1: "findRouteTypeWithGroups 2 (filesOnly [''/project/src/app/(auth)/routeType.ts''])
       ''/(auth)'' ''/project'' defaultConfig
     = Returns (Some ''/project/src/app/(auth)/routeType.ts'')"
    by code_simp
  have 2: "''/project/src/app/(auth)/routeType.ts''
       = join [descend (join [''/project'', appDir defaultConfig]) [''(auth)''],
               routeTypeFileName defaultConfig @ ''.'' @ ''ts'']"
    by code_simp
  have segs: "escapedSegments (parseRouteSegments ''/(auth)'') = [''(auth)'']"
    by (simp add: escapedSegments_def parseRouteSegments_def)
  have grp: "isRouteGroup ''(auth)''" by code_simp
  have 3: "filter (\<lambda>d. \<not> isRouteGroup d) dirs \<noteq> escapedSegments (parseRouteSegments ''/(auth)'')"
    for dirs
  proof
    assume "filter (\<lambda>d. \<not> isRouteGroup d) dirs = escapedSegments (parseRouteSegments ''/(auth)'')"
    then have "''(auth)'' \<in> set (filter (\<lambda>d. \<not> isRouteGroup d) dirs)"
      unfolding segs by simp
    with grp show False by simp
  qed
  from grp have 4: "filter (\<lambda>d. \<not> isRouteGroup d) [''(auth)''] = []" by simp
  from 1 2 3 4 segs show ?thesis by blast
qed

text \<open>
  Claim C5, amended.  A found path is the app directory, then the directories of the
  search's steps, then the definition file with extension \<^verbatim>\<open>ts\<close> or \<^verbatim>\<open>tsx\<close>; the
  directories entered by direct descent are exactly the route's decoded segments, in
  order; every other directory on the path is a route group; so the number of segments
  is the number of directories minus the number of groups entered.
\<close>

theorem groups_consume_no_segment:
  "findRouteTypeWithGroups fuel typescript r projectPath config = Returns (Some p) \<Longrightarrow>
     \<exists>steps ext. (ext = ''ts'' \<or> ext = ''tsx'')
       \<and> p = join [descend (join [projectPath, appDir config]) (map stepName steps),
                   routeTypeFileName config @ ''.'' @ ext]
       \<and> consumedSegments steps = escapedSegments (parseRouteSegments r)
       \<and> list_all isRouteGroup (groupsEntered steps)
       \<and> length (escapedSegments (parseRouteSegments r))
           = length steps - length (groupsEntered steps)"
proof -
  assume "findRouteTypeWithGroups fuel typescript r projectPath config = Returns (Some p)"
  then have "searchDir fuel typescript (join [projectPath, appDir config])
               (escapedSegments (parseRouteSegments r)) config = Returns (Some p)"
    by (simp add: findRouteTypeWithGroups_def Let_def)
  from search_path_shape(1)[OF this] obtain steps ext where
    s: "ext = ''ts'' \<or> ext = ''tsx''"
       "p = join [descend (join [projectPath, appDir config]) (map stepName steps),
                  routeTypeFileName config @ ''.'' @ ext]"
       "consumedSegments steps = escapedSegments (parseRouteSegments r)"
       "list_all isRouteGroup (groupsEntered steps)"
    by blast
  from s(3) steps_length[of steps]
  have "length (escapedSegments (parseRouteSegments r)) = length steps - length (groupsEntered steps)"
    by simp
  with s show ?thesis by blast
qed

theorem groups_consume_no_segment_witness:
  "\<exists>steps ext. (ext = ''ts'' \<or> ext = ''tsx'')
       \<and> ''/project/src/app/(shop)/login/routeType.ts''
           = join [descend (join [''/project'', appDir defaultConfig]) (map stepName steps),
                   routeTypeFileName defaultConfig @ ''.'' @ ext]
       \<and> consumedSegments steps = [''login'']
       \<and> list_all isRouteGroup (groupsEntered steps)
       \<and> length [''login''] = length steps - length (groupsEntered steps)"
  using groups_consume_no_segment [OF groupedProject_login]
  unfolding login_segments .

subsection \<open>The search and the specification's descent\<close>

lemma isRouteGroup_iff: "isRouteGroup name \<longleftrightarrow> isGroupingName name"
proof
  assume g: "isRouteGroup name"
  then obtain cs where name: "name = CHR ''('' # cs"
    and ne: "takeWhile (\<lambda>x. x \<noteq> CHR '')'') cs \<noteq> []"
    and dr: "dropWhile (\<lambda>x. x \<noteq> CHR '')'') cs = '')''"
    by (auto simp: isRouteGroup_def split: list.splits)
  have "cs = takeWhile (\<lambda>x. x \<noteq> CHR '')'') cs @ dropWhile (\<lambda>x. x \<noteq> CHR '')'') cs"
    by simp
  with dr have "name = ''('' @ takeWhile (\<lambda>x. x \<noteq> CHR '')'') cs @ '')''"
    using name by simp
  moreover have "CHR '')'' \<notin> set (takeWhile (\<lambda>x. x \<noteq> CHR '')'') cs)"
    by (auto dest: set_takeWhileD)
  ultimately show "isGroupingName name"
    unfolding isGroupingName_def using ne by blast
next
  assume "isGroupingName name"
  then obtain interior where name: "name = ''('' @ interior @ '')''"
    and ne: "interior \<noteq> []" and np: "CHR '')'' \<notin> set interior"
    unfolding isGroupingName_def by blast
  from np have "takeWhile (\<lambda>x. x \<noteq> CHR '')'') (interior @ '')'') = interior"
    by (induction interior) auto
  moreover from np have "dropWhile (\<lambda>x. x \<noteq> CHR '')'') (interior @ '')'') = '')''"
    by (induction interior) auto
  ultimately show "isRouteGroup name"
    using name ne by (simp add: isRouteGroup_def)
qed

lemma isRouteGroup_eq: "isRouteGroup = isGroupingName"
  by (rule ext) (rule isRouteGroup_iff)

lemma search_sound:
  "searchDir n typescript dir segs config = Returns r \<Longrightarrow> [] \<notin> set segs
     \<Longrightarrow> groupingSearch typescript (listDirectoryEntries typescript) config dir segs r"
  "searchEntries n typescript dir segs config entries = Returns r \<Longrightarrow> [] \<notin> set segs
     \<Longrightarrow> groupingScan typescript (listDirectoryEntries typescript) config dir segs
           (filter isGroupingName (List.map_filter dirNameOf entries)) r"
proof (induction n typescript dir segs config and n typescript dir segs config entries
       arbitrary: r and r rule: searchDir_searchEntries.induct)
  case (1 typescript currentDir remainingSegments config)
  then show ?case by simp
next
  case (2 n typescript currentDir config)
  then have r: "r = findRouteTypeFile typescript currentDir config [''ts'', ''tsx'']"
    by (simp only: searchDir.simps outcome.inject)
  show ?case
  proof (cases "fileExists typescript (join [currentDir, routeTypeFileName config @ ''.ts''])")
    case True
    with r have "r = Some (join [currentDir, routeTypeFileName config @ ''.ts''])" by simp
    with True show ?thesis by (simp add: base_ts)
  next
    case nts: False
    show ?thesis
    proof (cases "fileExists typescript (join [currentDir, routeTypeFileName config @ ''.tsx''])")
      case True
      with r nts have "r = Some (join [currentDir, routeTypeFileName config @ ''.tsx''])" by simp
      with True nts show ?thesis by (simp add: base_tsx)
    next
      case False
      with r nts have "r = None" by simp
      with False nts show ?thesis by (simp add: base_none)
    qed
  qed
next
  case (3 n typescript currentDir nextSegment rest config)
  from "3.prems"(2) have ne: "nextSegment \<noteq> []" and rest: "[] \<notin> set rest" by auto
  let ?d = "join [currentDir, nextSegment]"
  have missed: "groupingSearch typescript (listDirectoryEntries typescript) config currentDir (nextSegment # rest) r"
    if m: "(if directoryExists typescript ?d then searchDir n typescript ?d rest config
            else Returns None) = Returns result" "\<not> truthy result"
      and sc: "groupingScan typescript (listDirectoryEntries typescript) config currentDir (nextSegment # rest)
                 (filter isGroupingName (listDirectoryEntries typescript currentDir)) r"
    for result
  proof (cases "directoryExists typescript ?d")
    case True
    with m have s: "searchDir n typescript ?d rest config = Returns result" by simp
    with m(2) have "result = None" by (cases result) (auto dest: search_truthy(1))
    with "3.IH"(1)[OF ne refl True s rest] True sc show ?thesis
      by (auto intro: groups_after_direct)
  next
    case False
    from False sc show ?thesis by (rule groups_only)
  qed
  from "3.prems"(1) show ?case
  proof (cases rule: searchDir_Cons_cases)
    case blank
    with ne show ?thesis by simp
  next
    case direct
    from direct(4) obtain p where p: "r = Some p" by (cases r) auto
    from "3.IH"(1)[OF ne refl direct(2,3) rest] direct(2) show ?thesis
      unfolding p by (rule direct_hit[rotated])
  next
    case (unreadable result)
    from unreadable(4) have l: "listDirectoryEntries typescript currentDir = []"
      by (simp add: listDirectoryEntries_def)
    have "groupingScan typescript (listDirectoryEntries typescript) config currentDir (nextSegment # rest)
            (filter isGroupingName (listDirectoryEntries typescript currentDir)) r"
      unfolding l using unreadable(5) by (simp add: scan_done)
    from missed[OF unreadable(2,3) this] show ?thesis .
  next
    case (scan result entries)
    from scan(4) have l: "listDirectoryEntries typescript currentDir = List.map_filter dirNameOf entries"
      by (simp add: listDirectoryEntries_def)
    from "3.IH"(2)[OF ne refl scan(2,3,4,5) "3.prems"(2)]
    have "groupingScan typescript (listDirectoryEntries typescript) config currentDir (nextSegment # rest)
            (filter isGroupingName (listDirectoryEntries typescript currentDir)) r"
      unfolding l .
    from missed[OF scan(2,3) this] show ?thesis .
  qed
next
  case (4 n typescript currentDir remainingSegments config)
  then show ?case by (simp add: map_filter_simps scan_done)
next
  case (5 n typescript currentDir remainingSegments config entry entries)
  from "5.prems"(1) show ?case
  proof (cases rule: searchEntries_Cons_cases)
    case no_name
    from "5.IH"(1)[OF no_name "5.prems"(2)] no_name(1) show ?thesis
      by (simp add: map_filter_simps)
  next
    case (no_group dirName)
    from "5.IH"(4)[OF no_group "5.prems"(2)] no_group(1,2) show ?thesis
      by (simp add: map_filter_simps isRouteGroup_iff)
  next
    case (hit dirName)
    from hit(4) obtain p where p: "r = Some p" by (cases r) auto
    from "5.IH"(2)[OF hit(1,2,3) "5.prems"(2)] hit(1,2) show ?thesis
      unfolding p by (simp add: map_filter_simps isRouteGroup_iff scan_hit)
  next
    case (miss dirName result)
    from miss(3,4) have "result = None" by (cases result) (auto dest: search_truthy(1))
    with "5.IH"(2)[OF miss(1,2,3) "5.prems"(2)] "5.IH"(3)[OF miss "5.prems"(2)] miss(1,2)
    show ?thesis
      by (simp add: map_filter_simps isRouteGroup_iff scan_miss)
  qed
qed


lemma searchEntries_skip:
  "filter isRouteGroup (List.map_filter dirNameOf skipped) = [] \<Longrightarrow>
     searchEntries n typescript dir segs config (skipped @ entries)
       = searchEntries n typescript dir segs config entries"
  by (induction skipped) (auto simp: map_filter_simps split: option.splits if_splits)

lemma first_group_split:
  "filter isRouteGroup (List.map_filter dirNameOf entries) = g # gs \<Longrightarrow>
     \<exists>skipped entry later. entries = skipped @ entry # later
        \<and> filter isRouteGroup (List.map_filter dirNameOf skipped) = []
        \<and> dirNameOf entry = Some g \<and> isRouteGroup g
        \<and> filter isRouteGroup (List.map_filter dirNameOf later) = gs"
proof (induction entries)
  case Nil
  then show ?case by (simp add: map_filter_simps)
next
  case (Cons e es)
  show ?case
  proof (cases "\<exists>d. dirNameOf e = Some d \<and> isRouteGroup d")
    case True
    then obtain d where d: "dirNameOf e = Some d" "isRouteGroup d" by blast
    with Cons.prems have "d = g" "filter isRouteGroup (List.map_filter dirNameOf es) = gs"
      by (simp_all add: map_filter_simps)
    with d show ?thesis
      by (intro exI[of _ "[]"] exI[of _ e] exI[of _ es]) (simp add: map_filter_simps)
  next
    case False
    then have skip: "filter isRouteGroup (List.map_filter dirNameOf [e]) = []"
      by (auto simp: map_filter_simps split: option.splits)
    with Cons.prems False have "filter isRouteGroup (List.map_filter dirNameOf es) = g # gs"
      by (auto simp: map_filter_simps split: option.splits if_splits)
    from Cons.IH[OF this] obtain skipped entry later where
      sp: "es = skipped @ entry # later"
          "filter isRouteGroup (List.map_filter dirNameOf skipped) = []"
          "dirNameOf entry = Some g" "isRouteGroup g"
          "filter isRouteGroup (List.map_filter dirNameOf later) = gs"
      by blast
    from sp(2) skip have "filter isRouteGroup (List.map_filter dirNameOf (e # skipped)) = []"
      by (auto simp: map_filter_simps split: option.splits if_splits)
    with sp show ?thesis
      by (intro exI[of _ "e # skipped"] exI[of _ entry] exI[of _ later]) simp
  qed
qed

lemma search_complete:
  "groupingSearch typescript (listDirectoryEntries typescript) config dir segs r \<Longrightarrow> [] \<notin> set segs
     \<Longrightarrow> \<exists>n. searchDir n typescript dir segs config = Returns r"
  "groupingScan typescript (listDirectoryEntries typescript) config dir segs gs r \<Longrightarrow> [] \<notin> set segs
     \<Longrightarrow> \<forall>entries. filter isRouteGroup (List.map_filter dirNameOf entries) = gs
           \<longrightarrow> (\<exists>n. searchEntries n typescript dir segs config entries = Returns r)"
proof (induction rule: groupingSearch_groupingScan.inducts)
  case (base_ts dir)
  then have "searchDir (Suc 0) typescript dir [] config
      = Returns (Some (join [dir, routeTypeFileName config @ ''.ts'']))" by simp
  then show ?case ..
next
  case (base_tsx dir)
  then have "searchDir (Suc 0) typescript dir [] config
      = Returns (Some (join [dir, routeTypeFileName config @ ''.tsx'']))" by simp
  then show ?case ..
next
  case (base_none dir)
  then have "searchDir (Suc 0) typescript dir [] config = Returns None" by simp
  then show ?case ..
next
  case (direct_hit dir head rest p)
  from direct_hit.prems have ne: "head \<noteq> []" and rest: "[] \<notin> set rest" by auto
  from direct_hit.IH(3)[OF rest] obtain n where
    n: "searchDir n typescript (join [dir, head]) rest config = Returns (Some p)" ..
  from search_truthy(1)[OF n] have "truthy (Some p)" by simp
  from searchDir_Cons_direct[OF ne direct_hit.IH(1) n this] show ?case ..
next
  case (groups_after_direct dir head rest r)
  from groups_after_direct.prems have ne: "head \<noteq> []" and rest: "[] \<notin> set rest" by auto
  from groups_after_direct.IH(3)[OF rest] obtain n1 where
    n1: "searchDir n1 typescript (join [dir, head]) rest config = Returns None" ..
  show ?case
  proof (cases "readDirectory typescript dir")
    case None
    with groups_after_direct.IH(5)[OF groups_after_direct.prems, rule_format, of "[]"]
    have "r = None" by (simp add: listDirectoryEntries_def map_filter_simps)
    moreover have "(if directoryExists typescript (join [dir, head])
        then searchDir n1 typescript (join [dir, head]) rest config else Returns None) = Returns None"
      using n1 by simp
    from searchDir_Cons_unreadable[OF ne this _ None]
    have "searchDir (Suc n1) typescript dir (head # rest) config = Returns None" by simp
    ultimately show ?thesis by blast
  next
    case (Some entries)
    with groups_after_direct.IH(5)[OF groups_after_direct.prems, rule_format, of entries]
    obtain n2 where n2: "searchEntries n2 typescript dir (head # rest) config entries = Returns r"
      by (auto simp: listDirectoryEntries_def isRouteGroup_eq)
    from search_fuel_mono(1)[OF n1, of "max n1 n2"] groups_after_direct.IH(1)
    have d: "(if directoryExists typescript (join [dir, head])
        then searchDir (max n1 n2) typescript (join [dir, head]) rest config else Returns None)
          = Returns None"
      by simp
    from search_fuel_mono(2)[OF n2, of "max n1 n2"]
    have "searchEntries (max n1 n2) typescript dir (head # rest) config entries = Returns r" by simp
    from searchDir_Cons_scan[OF ne d _ Some this]
    have "searchDir (Suc (max n1 n2)) typescript dir (head # rest) config = Returns r" by simp
    then show ?thesis ..
  qed
next
  case (groups_only dir head rest r)
  from groups_only.prems have ne: "head \<noteq> []" by auto
  have d: "(if directoryExists typescript (join [dir, head])
        then searchDir n typescript (join [dir, head]) rest config else Returns None) = Returns None"
    for n using groups_only.IH(1) by simp
  show ?case
  proof (cases "readDirectory typescript dir")
    case None
    with groups_only.IH(3)[OF groups_only.prems, rule_format, of "[]"]
    have "r = None" by (simp add: listDirectoryEntries_def map_filter_simps)
    moreover from searchDir_Cons_unreadable[OF ne d _ None]
    have "searchDir (Suc 0) typescript dir (head # rest) config = Returns None" by simp
    ultimately show ?thesis by blast
  next
    case (Some entries)
    with groups_only.IH(3)[OF groups_only.prems, rule_format, of entries]
    obtain n2 where n2: "searchEntries n2 typescript dir (head # rest) config entries = Returns r"
      by (auto simp: listDirectoryEntries_def isRouteGroup_eq)
    from searchDir_Cons_scan[OF ne d _ Some n2]
    have "searchDir (Suc n2) typescript dir (head # rest) config = Returns r" by simp
    then show ?thesis ..
  qed
next
  case (scan_done dir segs)
  show ?case
  proof (intro allI impI)
    fix entries
    assume "filter isRouteGroup (List.map_filter dirNameOf entries) = []"
    from searchEntries_skip[OF this, of 0 typescript dir segs config "[]"]
    have "searchEntries 0 typescript dir segs config entries = Returns None" by simp
    then show "\<exists>n. searchEntries n typescript dir segs config entries = Returns None" ..
  qed
next
  case (scan_hit dir g segs p gs)
  from scan_hit.IH(2)[OF scan_hit.prems] obtain n where
    n: "searchDir n typescript (join [dir, g]) segs config = Returns (Some p)" ..
  from search_truthy(1)[OF n] have t: "truthy (Some p)" by simp
  show ?case
  proof (intro allI impI)
    fix entries
    assume "filter isRouteGroup (List.map_filter dirNameOf entries) = g # gs"
    from first_group_split[OF this] obtain skipped entry later where
      sp: "entries = skipped @ entry # later"
          "filter isRouteGroup (List.map_filter dirNameOf skipped) = []"
          "dirNameOf entry = Some g" "isRouteGroup g"
      by blast
    have "searchEntries n typescript dir segs config (entry # later) = Returns (Some p)"
      using sp(3,4) n t by simp
    with searchEntries_skip[OF sp(2), of n typescript dir segs config "entry # later"] sp(1)
    have "searchEntries n typescript dir segs config entries = Returns (Some p)" by simp
    then show "\<exists>n. searchEntries n typescript dir segs config entries = Returns (Some p)" ..
  qed
next
  case (scan_miss dir g segs gs r)
  from scan_miss.IH(2)[OF scan_miss.prems] obtain n1 where
    n1: "searchDir n1 typescript (join [dir, g]) segs config = Returns None" ..
  show ?case
  proof (intro allI impI)
    fix entries
    assume "filter isRouteGroup (List.map_filter dirNameOf entries) = g # gs"
    from first_group_split[OF this] obtain skipped entry later where
      sp: "entries = skipped @ entry # later"
          "filter isRouteGroup (List.map_filter dirNameOf skipped) = []"
          "dirNameOf entry = Some g" "isRouteGroup g"
          "filter isRouteGroup (List.map_filter dirNameOf later) = gs"
      by blast
    from scan_miss.IH(4)[OF scan_miss.prems, rule_format, OF sp(5)] obtain n2 where
      n2: "searchEntries n2 typescript dir segs config later = Returns r" ..
    from search_fuel_mono(1)[OF n1, of "max n1 n2"]
    have a: "searchDir (max n1 n2) typescript (join [dir, g]) segs config = Returns None" by simp
    from search_fuel_mono(2)[OF n2, of "max n1 n2"]
    have b: "searchEntries (max n1 n2) typescript dir segs config later = Returns r" by simp
    have "searchEntries (max n1 n2) typescript dir segs config (entry # later) = Returns r"
      using sp(3,4) a b by simp
    with searchEntries_skip[OF sp(2), of "max n1 n2" typescript dir segs config "entry # later"] sp(1)
    have "searchEntries (max n1 n2) typescript dir segs config entries = Returns r" by simp
    then show "\<exists>n. searchEntries n typescript dir segs config entries = Returns r" ..
  qed
qed

lemma replace5F_Nil_iff: "replace5F s = [] \<longleftrightarrow> s = []"
  by (cases s) auto

lemma escapedSegments_nonempty: "[] \<notin> set (escapedSegments (parseRouteSegments r))"
proof
  assume "[] \<in> set (escapedSegments (parseRouteSegments r))"
  then obtain s where "s \<in> set (parseRouteSegments r)" "replace5F s = []"
    unfolding escapedSegments_def by auto
  then show False
    by (auto simp: parseRouteSegments_def replace5F_Nil_iff split: if_splits)
qed

text \<open>
  The search is the specification's descent over the entries the host lists: it returns
  a result exactly when the descent that takes the names read out of the listing for
  the subdirectories gives that result.
\<close>

lemma search_follows_listing:
  "(\<exists>fuel. findRouteTypeWithGroups fuel typescript r projectPath config = Returns res)
   \<longleftrightarrow> groupingSearch typescript (listDirectoryEntries typescript) config
         (join [projectPath, appDir config]) (escapedSegments (parseRouteSegments r)) res"
proof
  assume "\<exists>fuel. findRouteTypeWithGroups fuel typescript r projectPath config = Returns res"
  then obtain fuel where
    "findRouteTypeWithGroups fuel typescript r projectPath config = Returns res" ..
  then have "searchDir fuel typescript (join [projectPath, appDir config])
       (escapedSegments (parseRouteSegments r)) config = Returns res"
    unfolding findRouteTypeWithGroups_def Let_def .
  from search_sound(1)[OF this escapedSegments_nonempty]
  show "groupingSearch typescript (listDirectoryEntries typescript) config
         (join [projectPath, appDir config]) (escapedSegments (parseRouteSegments r)) res" .
next
  assume "groupingSearch typescript (listDirectoryEntries typescript) config
         (join [projectPath, appDir config]) (escapedSegments (parseRouteSegments r)) res"
  from search_complete(1)[OF this escapedSegments_nonempty] obtain n where
    "searchDir n typescript (join [projectPath, appDir config])
       (escapedSegments (parseRouteSegments r)) config = Returns res" ..
  then have "findRouteTypeWithGroups n typescript r projectPath config = Returns res"
    unfolding findRouteTypeWithGroups_def Let_def .
  then show "\<exists>fuel. findRouteTypeWithGroups fuel typescript r projectPath config = Returns res" ..
qed

text \<open>
  The descent depends on the subdirectories only through the grouping names among
  them.  So where the listing shows the grouping subdirectories of every directory, as
  the mocks of the repository's tests do, the search is the descent over the directory
  tree.
\<close>

lemma groupingSearch_subdirs_cong:
  assumes same: "\<And>d. filter isGroupingName (subdirs d) = filter isGroupingName (subdirs' d)"
  shows "groupingSearch typescript subdirs config dir segs r
           \<Longrightarrow> groupingSearch typescript subdirs' config dir segs r"
    and "groupingScan typescript subdirs config dir segs gs r
           \<Longrightarrow> groupingScan typescript subdirs' config dir segs gs r"
proof (induction rule: groupingSearch_groupingScan.inducts)
  case (groups_after_direct dir head rest r)
  from groups_after_direct.IH(1,3,5) show ?case
    unfolding same by (rule groupingSearch_groupingScan.groups_after_direct)
next
  case (groups_only dir head rest r)
  from groups_only.IH(1,3) show ?case
    unfolding same by (rule groupingSearch_groupingScan.groups_only)
qed (auto intro: groupingSearch_groupingScan.intros)

lemma search_follows_listed_groups:
  assumes listed: "\<And>d. groupDirs typescript d = filter isGroupingName (subdirs d)"
  shows "(\<exists>fuel. findRouteTypeWithGroups fuel typescript r projectPath config = Returns res)
   \<longleftrightarrow> groupingSearch typescript subdirs config
         (join [projectPath, appDir config]) (escapedSegments (parseRouteSegments r)) res"
proof -
  have a: "filter isGroupingName (listDirectoryEntries typescript d)
             = filter isGroupingName (subdirs d)" for d
    using listed[of d] by (simp add: groupDirs_def isRouteGroup_eq)
  have "groupingSearch typescript (listDirectoryEntries typescript) config
          (join [projectPath, appDir config]) (escapedSegments (parseRouteSegments r)) res
        \<longleftrightarrow> groupingSearch typescript subdirs config
          (join [projectPath, appDir config]) (escapedSegments (parseRouteSegments r)) res"
    using groupingSearch_subdirs_cong(1)[of "listDirectoryEntries typescript" subdirs, OF a]
          groupingSearch_subdirs_cong(1)[of subdirs "listDirectoryEntries typescript", OF a[symmetric]]
    by blast
  with search_follows_listing show ?thesis by simp
qed

lemma authGroupMock_listed:
  "groupDirs authGroupMock d = filter isGroupingName [''(auth)'']"
proof -
  have "dirNameOf ''(auth)/'' = Some ''(auth)''" by code_simp
  then show ?thesis
    by (simp add: groupDirs_def listDirectoryEntries_def authGroupMock_def map_filter_simps
          isRouteGroup_eq)
qed

lemma authGroupMock_descent:
  "groupingSearch authGroupMock (\<lambda>d. [''(auth)'']) defaultConfig
     (join [''/project'', appDir defaultConfig]) (escapedSegments (parseRouteSegments ''/login''))
     (Some ''/project/src/app/(auth)/login/routeType.ts'')"
proof -
  have "\<exists>fuel. findRouteTypeWithGroups fuel authGroupMock ''/login'' ''/project'' defaultConfig
          = Returns (Some ''/project/src/app/(auth)/login/routeType.ts'')"
    by (rule exI[of _ 3]) (rule test_finds_route_inside_route_group)
  then show ?thesis
    by (rule search_follows_listed_groups[OF authGroupMock_listed, THEN iffD1])
qed

text \<open>The descent has one result.\<close>

lemma groupingSearch_deterministic:
  "groupingSearch typescript subdirs config dir segs r
     \<Longrightarrow> groupingSearch typescript subdirs config dir segs r' \<Longrightarrow> r = r'"
  "groupingScan typescript subdirs config dir segs gs r
     \<Longrightarrow> groupingScan typescript subdirs config dir segs gs r' \<Longrightarrow> r = r'"
proof (induction arbitrary: r' and r' rule: groupingSearch_groupingScan.inducts)
  case (base_ts dir)
  from base_ts.prems base_ts.IH show ?case by (cases rule: groupingSearch.cases) auto
next
  case (base_tsx dir)
  from base_tsx.prems base_tsx.IH show ?case by (cases rule: groupingSearch.cases) auto
next
  case (base_none dir)
  from base_none.prems base_none.IH show ?case by (cases rule: groupingSearch.cases) auto
next
  case (direct_hit dir head rest p)
  from direct_hit.prems show ?case
  proof (cases rule: groupingSearch.cases)
    case (direct_hit p')
    with direct_hit.IH(3) show ?thesis by blast
  next
    case groups_after_direct
    with direct_hit.IH(3) show ?thesis by blast
  next
    case groups_only
    with direct_hit.IH(1) show ?thesis by blast
  qed
next
  case (groups_after_direct dir head rest r)
  from groups_after_direct.prems show ?case
  proof (cases rule: groupingSearch.cases)
    case (direct_hit p')
    with groups_after_direct.IH(3) show ?thesis by blast
  next
    case groups_after_direct
    with groups_after_direct.IH(5) show ?thesis by blast
  next
    case groups_only
    with groups_after_direct.IH(1) show ?thesis by blast
  qed
next
  case (groups_only dir head rest r)
  from groups_only.prems show ?case
  proof (cases rule: groupingSearch.cases)
    case (direct_hit p')
    with groups_only.IH(1) show ?thesis by blast
  next
    case groups_after_direct
    with groups_only.IH(1) show ?thesis by blast
  next
    case groups_only
    with groups_only.IH(3) show ?thesis by blast
  qed
next
  case (scan_done dir segs)
  from scan_done.prems show ?case by (cases rule: groupingScan.cases) auto
next
  case (scan_hit dir g segs p gs)
  from scan_hit.prems show ?case
  proof (cases rule: groupingScan.cases)
    case (scan_hit p')
    with scan_hit.IH(2) show ?thesis by blast
  next
    case scan_miss
    with scan_hit.IH(2) show ?thesis by blast
  qed
next
  case (scan_miss dir g segs gs r)
  from scan_miss.prems show ?case
  proof (cases rule: groupingScan.cases)
    case (scan_hit p')
    with scan_miss.IH(2) show ?thesis by blast
  next
    case scan_miss
    with scan_miss.IH(4) show ?thesis by blast
  qed
qed

lemma authLoginHost_descent:
  "groupingSearch authLoginHost authLoginSubdirs defaultConfig ''/project/src/app'' [''login'']
     (Some ''/project/src/app/(auth)/login/routeType.ts'')"
proof -
  have j1: "join [''/project/src/app'', ''(auth)''] = ''/project/src/app/(auth)''" by code_simp
  have j2: "join [''/project/src/app/(auth)'', ''login''] = ''/project/src/app/(auth)/login''"
    by code_simp
  have j3: "join [''/project/src/app/(auth)/login'', routeTypeFileName defaultConfig @ ''.ts'']
              = ''/project/src/app/(auth)/login/routeType.ts''" by code_simp
  have j4: "join [''/project/src/app'', ''login''] = ''/project/src/app/login''" by code_simp
  have "fileExists authLoginHost
          (join [''/project/src/app/(auth)/login'', routeTypeFileName defaultConfig @ ''.ts''])"
    unfolding j3 by (simp add: authLoginHost_def)
  then have "groupingSearch authLoginHost authLoginSubdirs defaultConfig
          ''/project/src/app/(auth)/login'' []
          (Some (join [''/project/src/app/(auth)/login'', routeTypeFileName defaultConfig @ ''.ts'']))"
    by (rule base_ts)
  then have b: "groupingSearch authLoginHost authLoginSubdirs defaultConfig
          (join [''/project/src/app/(auth)'', ''login'']) []
          (Some ''/project/src/app/(auth)/login/routeType.ts'')"
    unfolding j2 j3 .
  have "directoryExists authLoginHost (join [''/project/src/app/(auth)'', ''login''])"
    unfolding j2 by (simp add: authLoginHost_def)
  from this b have "groupingSearch authLoginHost authLoginSubdirs defaultConfig
          ''/project/src/app/(auth)'' [''login'']
          (Some ''/project/src/app/(auth)/login/routeType.ts'')"
    by (rule direct_hit)
  then have "groupingSearch authLoginHost authLoginSubdirs defaultConfig
          (join [''/project/src/app'', ''(auth)'']) [''login'']
          (Some ''/project/src/app/(auth)/login/routeType.ts'')"
    unfolding j1 .
  then have s: "groupingScan authLoginHost authLoginSubdirs defaultConfig
          ''/project/src/app'' [''login''] [''(auth)'']
          (Some ''/project/src/app/(auth)/login/routeType.ts'')"
    by (rule scan_hit)
  have "isRouteGroup ''(auth)''" by code_simp
  then have g: "filter isGroupingName (authLoginSubdirs ''/project/src/app'') = [''(auth)'']"
    by (simp add: authLoginSubdirs_def isRouteGroup_eq)
  have "\<not> directoryExists authLoginHost (join [''/project/src/app'', ''login''])"
    unfolding j4 by (simp add: authLoginHost_def)
  from this s[folded g] show ?thesis by (rule groups_only)
qed

lemma authLoginHost_search:
  "searchDir 1 authLoginHost ''/project/src/app'' [''login''] defaultConfig = Returns None"
  by code_simp

text \<open>
  Claim C1.  The search is to recurse into each immediate subdirectory with a grouping
  name and return the first path found there.  In the project whose only file is
  \<^verbatim>\<open>src/app/(auth)/login/routeType.ts\<close> the descent for the route \<^verbatim>\<open>/login\<close> over the
  directory tree enters \<^verbatim>\<open>(auth)\<close>, which exists, and gives that file, not null.
  The code reads the subdirectories out of \<^verbatim>\<open>readDirectory\<close>, whose listing holds
  files only: the listing of the app directory is empty, no name is read out of it, and
  the search returns null without entering \<^verbatim>\<open>(auth)\<close>; with no amount of fuel does
  it return a path.
\<close>

theorem grouping_directories_not_listed:
  "groupingSearch authLoginHost authLoginSubdirs defaultConfig
     (join [''/project'', appDir defaultConfig]) (escapedSegments (parseRouteSegments ''/login''))
     (Some ''/project/src/app/(auth)/login/routeType.ts'')
   \<and> \<not> groupingSearch authLoginHost authLoginSubdirs defaultConfig
         (join [''/project'', appDir defaultConfig]) (escapedSegments (parseRouteSegments ''/login''))
         None
   \<and> findRouteTypeWithGroups 1 authLoginHost ''/login'' ''/project'' defaultConfig = Returns None
   \<and> \<not> (\<exists>fuel p. findRouteTypeWithGroups fuel authLoginHost ''/login'' ''/project'' defaultConfig
                    = Returns (Some p))
   \<and> directoryExists authLoginHost ''/project/src/app/(auth)''
   \<and> authLoginSubdirs ''/project/src/app'' = [''(auth)'']
   \<and> readDirectory authLoginHost ''/project/src/app'' = Some []
   \<and> listDirectoryEntries authLoginHost ''/project/src/app'' = []"
proof -
  have app: "join [''/project'', appDir defaultConfig] = ''/project/src/app''" by code_simp
  have segs: "escapedSegments (parseRouteSegments ''/login'') = [''login'']"
    by (simp add: escapedSegments_def parseRouteSegments_def)
  have code: "findRouteTypeWithGroups n authLoginHost ''/login'' ''/project'' defaultConfig
                = searchDir n authLoginHost ''/project/src/app'' [''login''] defaultConfig" for n
    unfolding findRouteTypeWithGroups_def Let_def app segs ..
  have 1: "groupingSearch authLoginHost authLoginSubdirs defaultConfig
     (join [''/project'', appDir defaultConfig]) (escapedSegments (parseRouteSegments ''/login''))
     (Some ''/project/src/app/(auth)/login/routeType.ts'')"
    unfolding app segs by (rule authLoginHost_descent)
  have 0: "\<not> groupingSearch authLoginHost authLoginSubdirs defaultConfig
         (join [''/project'', appDir defaultConfig]) (escapedSegments (parseRouteSegments ''/login''))
         None"
    using groupingSearch_deterministic(1)[OF 1] by blast
  have 2: "findRouteTypeWithGroups 1 authLoginHost ''/login'' ''/project'' defaultConfig = Returns None"
    unfolding code by (rule authLoginHost_search)
  have 3: "findRouteTypeWithGroups fuel authLoginHost ''/login'' ''/project'' defaultConfig
             \<noteq> Returns (Some p)" for fuel p
  proof
    assume "findRouteTypeWithGroups fuel authLoginHost ''/login'' ''/project'' defaultConfig
              = Returns (Some p)"
    then have "searchDir fuel authLoginHost ''/project/src/app'' [''login''] defaultConfig
                 = Returns (Some p)"
      unfolding code .
    from search_fuel_mono(1)[OF this, of "max fuel 1"]
         search_fuel_mono(1)[OF authLoginHost_search, of "max fuel 1"]
    show False by simp
  qed
  have 4: "directoryExists authLoginHost ''/project/src/app/(auth)''"
    by (simp add: authLoginHost_def)
  have 5: "authLoginSubdirs ''/project/src/app'' = [''(auth)'']"
    by (simp add: authLoginSubdirs_def)
  have 6: "readDirectory authLoginHost ''/project/src/app'' = Some []"
    by (simp add: authLoginHost_def)
  have 7: "listDirectoryEntries authLoginHost ''/project/src/app'' = []"
    by (simp add: listDirectoryEntries_def 6 map_filter_simps)
  from 0 1 2 3 4 5 6 7 show ?thesis by blast
qed

section \<open>Properties of joined paths\<close>

lemma splitBy_append:
  "sep c \<Longrightarrow> splitBy sep (a @ c # b) = splitBy sep a @ splitBy sep b"
  by (induction a) (auto split: list.splits simp: splitBy_nonempty)

lemma splitBy_sep_free: "x \<in> set (splitBy sep s) \<Longrightarrow> c \<in> set x \<Longrightarrow> \<not> sep c"
proof (induction s arbitrary: x c)
  case Nil
  then show ?case by simp
next
  case (Cons a s)
  show ?case
  proof (cases "sep a")
    case True
    with Cons.prems have "x = [] \<or> x \<in> set (splitBy sep s)" by simp
    with Cons.prems(2) Cons.IH show ?thesis by auto
  next
    case False
    obtain p ps where sp: "splitBy sep s = p # ps"
      using splitBy_nonempty[of sep s] by (cases "splitBy sep s") auto
    with False Cons.prems(1) have "x = a # p \<or> x \<in> set ps" by simp
    then show ?thesis
    proof
      assume x: "x = a # p"
      with Cons.prems(2) have "c = a \<or> c \<in> set p" by simp
      then show ?thesis
      proof
        assume "c = a" with False show ?thesis by simp
      next
        assume "c \<in> set p"
        moreover have "p \<in> set (splitBy sep s)" using sp by simp
        ultimately show ?thesis by (rule Cons.IH[rotated])
      qed
    next
      assume "x \<in> set ps"
      then have "x \<in> set (splitBy sep s)" using sp by simp
      then show ?thesis using Cons.prems(2) by (rule Cons.IH)
    qed
  qed
qed

lemma joinWith_Cons: "xs \<noteq> [] \<Longrightarrow> joinWith sep (x # xs) = x @ sep @ joinWith sep xs"
  by (cases xs) auto

lemma joinWith_append:
  "xs \<noteq> [] \<Longrightarrow> ys \<noteq> [] \<Longrightarrow> joinWith sep (xs @ ys) = joinWith sep xs @ sep @ joinWith sep ys"
proof (induction xs)
  case Nil
  then show ?case by simp
next
  case (Cons x xs)
  show ?case
  proof (cases "xs = []")
    case True
    with Cons.prems show ?thesis by (simp add: joinWith_Cons)
  next
    case False
    with Cons show ?thesis by (simp add: joinWith_Cons)
  qed
qed

lemma splitBy_joinWith:
  "cs \<noteq> [] \<Longrightarrow> \<forall>c \<in> set cs. CHR ''/'' \<notin> set c \<Longrightarrow>
     splitBy isPosixPathSeparator (joinWith ''/'' cs) = cs"
proof (induction cs)
  case Nil
  then show ?case by simp
next
  case (Cons c cs)
  have free: "\<forall>x \<in> set c. \<not> isPosixPathSeparator x"
    using Cons.prems(2) by (auto simp: isPosixPathSeparator_def)
  show ?case
  proof (cases "cs = []")
    case True
    with free show ?thesis by (simp add: splitBy_no_sep)
  next
    case False
    then have "joinWith ''/'' (c # cs) = c @ CHR ''/'' # joinWith ''/'' cs"
      by (simp add: joinWith_Cons)
    moreover have "splitBy isPosixPathSeparator (c @ CHR ''/'' # joinWith ''/'' cs)
        = c # splitBy isPosixPathSeparator (joinWith ''/'' cs)"
      using free by (intro splitBy_append_sep) (auto simp: isPosixPathSeparator_def)
    ultimately show ?thesis using Cons.IH[OF False] Cons.prems(2) by simp
  qed
qed

lemma validStack_dots: "allow \<Longrightarrow> \<forall>y \<in> set st. y = ''..'' \<Longrightarrow> validStack allow st"
  by (induction st) auto

lemma validStack_below: "validStack allow (x # below) \<Longrightarrow> validStack allow below"
  by (auto simp: validStack_dots split: if_splits)

lemma validStack_step:
  "validStack allow st \<Longrightarrow> CHR ''/'' \<notin> set c \<Longrightarrow> validStack allow (normalizeStep allow st c)"
proof (cases st)
  case Nil
  assume "CHR ''/'' \<notin> set c"
  with Nil show ?thesis by auto
next
  case (Cons top below)
  assume v: "validStack allow st" and c: "CHR ''/'' \<notin> set c"
  show ?thesis
  proof (cases "c = [] \<or> c = ''.''")
    case True
    with v show ?thesis by auto
  next
    case False
    show ?thesis
    proof (cases "c = ''..''")
      case True
      with v Cons validStack_below[of allow top below] show ?thesis
        by (auto split: if_splits)
    next
      case nd: False
      with False v c show ?thesis by auto
    qed
  qed
qed

lemma validStack_foldl:
  "validStack allow st \<Longrightarrow> \<forall>c \<in> set cs. CHR ''/'' \<notin> set c
     \<Longrightarrow> validStack allow (foldl (normalizeStep allow) st cs)"
proof (induction cs arbitrary: st)
  case Nil
  then show ?case by simp
next
  case (Cons c cs)
  from Cons.prems have "validStack allow (normalizeStep allow st c)"
    by (intro validStack_step) auto
  from Cons.IH[OF this] Cons.prems(2) show ?case by simp
qed

lemma components_valid: "validStack (\<not> isAbsolute p) (components p)"
  unfolding components_def
  by (intro validStack_foldl) (auto dest: splitBy_sep_free simp: isPosixPathSeparator_def)

lemma validStack_replay:
  "validStack allow st \<Longrightarrow> foldl (normalizeStep allow) [] (rev st) = st"
proof (induction st)
  case Nil
  then show ?case by simp
next
  case (Cons x below)
  from Cons.prems have "validStack allow below" by (rule validStack_below)
  from Cons.IH[OF this] have "foldl (normalizeStep allow) [] (rev (x # below))
      = normalizeStep allow below x" by (simp del: normalizeStep.simps)
  also have "\<dots> = x # below"
  proof (cases "x = ''..''")
    case True
    with Cons.prems show ?thesis by (cases below) auto
  next
    case False
    with Cons.prems show ?thesis by auto
  qed
  finally show ?case .
qed

lemma foldl_normal_components:
  "\<forall>c \<in> set cs. normalComponent c \<Longrightarrow> foldl (normalizeStep allow) st cs = rev cs @ st"
  by (induction cs arbitrary: st) (auto simp: normalComponent_def)


lemma isAbsolute_append: "d \<noteq> [] \<Longrightarrow> isAbsolute (d @ rest) = isAbsolute d"
  by (simp add: isAbsolute_def)

lemma joinWith_hd: "x \<noteq> [] \<Longrightarrow> hd (joinWith sep (x # xs)) = hd x"
  by (cases xs) auto

lemma joinWith_last:
  "cs \<noteq> [] \<Longrightarrow> last cs \<noteq> [] \<Longrightarrow> last (joinWith sep cs) = last (last cs)"
proof (induction cs)
  case Nil
  then show ?case by simp
next
  case (Cons c cs)
  show ?case
  proof (cases "cs = []")
    case True
    then show ?thesis by simp
  next
    case False
    with Cons have "last (joinWith sep cs) = last (last cs)" by simp
    moreover have "joinWith sep cs \<noteq> []"
      using False Cons.prems(2) by (intro joinWith_nonempty[of "last cs"]) auto
    ultimately have "last (joinWith sep cs) = last (last cs)" "joinWith sep cs \<noteq> []"
      by simp_all
    with False show ?thesis by (simp add: joinWith_Cons)
  qed
qed

lemma normalize_normalForm:
  assumes path: "path \<noteq> []" and notrail: "last path \<noteq> CHR ''/''"
    and st: "foldl (normalizeStep (\<not> isAbsolute path)) [] (splitBy isPosixPathSeparator path) = st"
    and ne: "joinWith ''/'' (rev st) \<noteq> []"
  shows "normalizePath path = (if isAbsolute path then ''/'' else []) @ joinWith ''/'' (rev st)"
  using assms by (simp add: normalizePath_def normalizeString_def Let_def isAbsolute_def
      del: normalizeStep.simps)

lemma join_normalForm:
  assumes d: "d \<noteq> []" and cs: "cs \<noteq> []" and n: "\<forall>c \<in> set cs. normalComponent c"
  shows "join (d # cs) = normalForm d cs"
proof -
  have all_ne: "filter (\<lambda>arg. arg \<noteq> []) (d # cs) = d # cs"
    using d n by (auto simp: normalComponent_def filter_id_conv)
  have free: "\<forall>c \<in> set cs. CHR ''/'' \<notin> set c" using n by (simp add: normalComponent_def)
  let ?joined = "joinWith ''/'' (d # cs)"
  have joined: "?joined = d @ CHR ''/'' # joinWith ''/'' cs"
    using cs by (simp add: joinWith_Cons)
  have ne: "?joined \<noteq> []" using d joined by simp
  have abs: "isAbsolute ?joined = isAbsolute d"
    unfolding joined using d by (rule isAbsolute_append)
  have lastc: "last cs \<noteq> []" "CHR ''/'' \<notin> set (last cs)"
    using cs n by (auto simp: normalComponent_def)
  have "last ?joined = last (last cs)"
    using joinWith_last[of "d # cs" "''/''"] cs lastc by simp
  with lastc have notrail: "last ?joined \<noteq> CHR ''/''"
    by (metis last_in_set)
  have "splitBy isPosixPathSeparator ?joined
          = splitBy isPosixPathSeparator d @ splitBy isPosixPathSeparator (joinWith ''/'' cs)"
    unfolding joined by (rule splitBy_append) (simp add: isPosixPathSeparator_def)
  also have "\<dots> = splitBy isPosixPathSeparator d @ cs"
    using splitBy_joinWith[OF cs free] by simp
  finally have "foldl (normalizeStep (\<not> isAbsolute ?joined)) [] (splitBy isPosixPathSeparator ?joined)
      = foldl (normalizeStep (\<not> isAbsolute d)) (components d) cs"
    unfolding abs components_def by (simp del: normalizeStep.simps)
  also have "\<dots> = rev cs @ components d" using n by (rule foldl_normal_components)
  finally have st: "foldl (normalizeStep (\<not> isAbsolute ?joined)) []
      (splitBy isPosixPathSeparator ?joined) = rev cs @ components d" .
  have "joinWith ''/'' (rev (rev cs @ components d)) \<noteq> []"
    using cs lastc by (intro joinWith_nonempty[of "last cs"]) auto
  from normalize_normalForm[OF ne notrail st this]
  have "normalizePath ?joined = (if isAbsolute d then ''/'' else []) @ joinWith ''/'' (rev (components d) @ cs)"
    unfolding abs by simp
  then show ?thesis
    unfolding join_def Let_def all_ne normalForm_def by simp
qed


lemma validStack_elems: "validStack allow st \<Longrightarrow> x \<in> set st \<Longrightarrow> x \<noteq> [] \<and> CHR ''/'' \<notin> set x"
proof (induction st)
  case Nil
  then show ?case by simp
next
  case (Cons y below)
  from Cons.prems(1) have y: "y \<noteq> [] \<and> CHR ''/'' \<notin> set y" by simp
  from Cons.prems(1) have "validStack allow below" by (rule validStack_below)
  with Cons.IH Cons.prems(2) y show ?case by auto
qed

lemma normalForm_reparse:
  assumes cs: "cs \<noteq> []" and n: "\<forall>c \<in> set cs. normalComponent c"
  shows "normalForm d cs \<noteq> []"
    and "isAbsolute (normalForm d cs) = isAbsolute d"
    and "components (normalForm d cs) = rev cs @ components d"
proof -
  let ?st = "components d"
  let ?comps = "rev ?st @ cs"
  have valid: "validStack (\<not> isAbsolute d) ?st" by (rule components_valid)
  have elems: "\<forall>c \<in> set ?comps. c \<noteq> [] \<and> CHR ''/'' \<notin> set c"
    using validStack_elems[OF valid] n by (auto simp: normalComponent_def)
  have comps_ne: "?comps \<noteq> []" using cs by simp
  have jne: "joinWith ''/'' ?comps \<noteq> []"
    using cs elems by (intro joinWith_nonempty[of "last cs"]) auto
  show ne: "normalForm d cs \<noteq> []" using jne by (simp add: normalForm_def)
  obtain c0 rest0 where c0: "?comps = c0 # rest0" using comps_ne by (cases ?comps) auto
  with elems have "c0 \<noteq> []" "CHR ''/'' \<notin> set c0" by (metis list.set_intros(1))+
  then have hd0: "hd (joinWith ''/'' ?comps) \<noteq> CHR ''/''"
    unfolding c0 by (simp add: joinWith_hd) (metis hd_in_set)
  show abs: "isAbsolute (normalForm d cs) = isAbsolute d"
    using hd0 jne by (simp add: normalForm_def isAbsolute_def)
  have split: "splitBy isPosixPathSeparator (joinWith ''/'' ?comps) = ?comps"
    using comps_ne elems by (intro splitBy_joinWith) auto
  have "foldl (normalizeStep (\<not> isAbsolute d)) [] (splitBy isPosixPathSeparator (normalForm d cs))
      = foldl (normalizeStep (\<not> isAbsolute d)) [] ?comps"
  proof (cases "isAbsolute d")
    case True
    then have "splitBy isPosixPathSeparator (normalForm d cs) = [] # ?comps"
      using split by (simp add: normalForm_def isPosixPathSeparator_def)
    then show ?thesis by simp
  next
    case False
    then show ?thesis using split by (simp add: normalForm_def del: normalizeStep.simps)
  qed
  also have "\<dots> = foldl (normalizeStep (\<not> isAbsolute d)) ?st cs"
    using validStack_replay[OF valid] by (simp del: normalizeStep.simps)
  also have "\<dots> = rev cs @ ?st" using n by (rule foldl_normal_components)
  finally show "components (normalForm d cs) = rev cs @ components d"
    unfolding components_def[of "normalForm d cs"] abs .
qed

lemma normalForm_normalForm:
  assumes "cs \<noteq> []" "\<forall>c \<in> set cs. normalComponent c"
  shows "normalForm (normalForm d cs) deeper = normalForm d (cs @ deeper)"
  using normalForm_reparse(2,3)[OF assms, of d] by (simp add: normalForm_def)

lemma descend_normalForm:
  "d \<noteq> [] \<Longrightarrow> cs \<noteq> [] \<Longrightarrow> \<forall>c \<in> set cs. normalComponent c \<Longrightarrow> descend d cs = normalForm d cs"
proof (induction cs arbitrary: d)
  case Nil
  then show ?case by simp
next
  case (Cons c cs)
  have c: "[c] \<noteq> []" "\<forall>x \<in> set [c]. normalComponent x" using Cons.prems(3) by auto
  have j: "join [d, c] = normalForm d [c]"
    using Cons.prems(1) c by (rule join_normalForm)
  show ?case
  proof (cases "cs = []")
    case True
    with j show ?thesis by (simp add: descend_def)
  next
    case False
    have "descend d (c # cs) = descend (normalForm d [c]) cs"
      using j by (simp add: descend_def)
    also have "\<dots> = normalForm (normalForm d [c]) cs"
      using normalForm_reparse(1)[OF c] False Cons.prems(3) by (intro Cons.IH) auto
    also have "\<dots> = normalForm d (c # cs)"
      using normalForm_normalForm[OF c, of d cs] by simp
    finally show ?thesis .
  qed
qed

lemma normalForm_ancestor:
  assumes "cs \<noteq> []" "deeper \<noteq> []" "\<forall>c \<in> set (cs @ deeper). normalComponent c"
  shows "isAncestorDir (normalForm d cs) (normalForm d (cs @ deeper))"
proof -
  have "joinWith ''/'' ((rev (components d) @ cs) @ deeper)
      = joinWith ''/'' (rev (components d) @ cs) @ ''/'' @ joinWith ''/'' deeper"
    using assms(1,2) by (intro joinWith_append) auto
  then have eq: "normalForm d (cs @ deeper) = (normalForm d cs @ ''/'') @ joinWith ''/'' deeper"
    by (simp add: normalForm_def)
  have "joinWith ''/'' deeper \<noteq> []"
    using assms(2,3) by (intro joinWith_nonempty[of "last deeper"]) (auto simp: normalComponent_def)
  with eq have "strict_prefix (normalForm d cs @ ''/'') (normalForm d (cs @ deeper))"
    by (simp add: strict_prefix_def prefix_def)
  moreover have "normalForm d cs \<noteq> []"
    using assms by (intro normalForm_reparse(1)) auto
  ultimately show ?thesis by (simp add: isAncestorDir_def)
qed

section \<open>Direct resolution and the grouping search\<close>

lemma replace5F_set: "set (replace5F s) \<subseteq> insert (CHR ''_'') (set s)"
proof (induction s rule: replace5F.induct)
  case 1
  show ?case by simp
next
  case (2 c cs)
  show ?case
  proof (cases "c = CHR ''%'' \<and> take 2 cs = ''5F''")
    case True
    with 2 have "set (replace5F (drop 2 cs)) \<subseteq> insert (CHR ''_'') (set (drop 2 cs))" by simp
    moreover have "set (drop 2 cs) \<subseteq> set cs" by (rule set_drop_subset)
    ultimately show ?thesis using True by auto
  next
    case False
    with 2 show ?thesis by auto
  qed
qed

lemma replace5F_dots:
  "replace5F s = ''.'' \<longleftrightarrow> s = ''.''"
  "replace5F s = ''..'' \<longleftrightarrow> s = ''..''"
proof -
  have step: "replace5F (c # cs) = CHR ''.'' # t \<Longrightarrow> c = CHR ''.'' \<and> replace5F cs = t" for c cs t
    by (auto split: if_splits)
  show "replace5F s = ''.'' \<longleftrightarrow> s = ''.''"
  proof
    assume a: "replace5F s = ''.''"
    then obtain c cs where s: "s = c # cs" by (cases s) auto
    from step[of c cs "[]"] a s have "c = CHR ''.''" "replace5F cs = []" by auto
    with s show "s = ''.''" by (simp add: replace5F_Nil_iff)
  qed simp
  show "replace5F s = ''..'' \<longleftrightarrow> s = ''..''"
  proof
    assume a: "replace5F s = ''..''"
    then obtain c cs where s: "s = c # cs" by (cases s) auto
    from step[of c cs "''.''"] a s have c: "c = CHR ''.''" "replace5F cs = ''.''" by auto
    then obtain c' cs' where cs: "cs = c' # cs'" by (cases cs) auto
    from step[of c' cs' "[]"] c(2) cs have "c' = CHR ''.''" "replace5F cs' = []" by auto
    with s c cs show "s = ''..''" by (simp add: replace5F_Nil_iff)
  qed simp
qed

lemma parseRouteSegments_free: "s \<in> set (parseRouteSegments r) \<Longrightarrow> s \<noteq> [] \<and> CHR ''/'' \<notin> set s"
  by (auto simp: parseRouteSegments_def split: if_splits dest: splitBy_sep_free)

lemma escapedSegments_normal:
  assumes "\<forall>s \<in> set (parseRouteSegments r). s \<noteq> ''.'' \<and> s \<noteq> ''..''"
  shows "\<forall>c \<in> set (escapedSegments (parseRouteSegments r)). normalComponent c"
proof
  fix c assume "c \<in> set (escapedSegments (parseRouteSegments r))"
  then obtain s where s: "s \<in> set (parseRouteSegments r)" and c: "c = replace5F s"
    by (auto simp: escapedSegments_def)
  from parseRouteSegments_free[OF s] have f: "s \<noteq> []" "CHR ''/'' \<notin> set s" by auto
  from assms s have d: "s \<noteq> ''.''" "s \<noteq> ''..''" by auto
  have "CHR ''/'' \<notin> set (replace5F s)" using replace5F_set[of s] f(2) by auto
  with f d show "normalComponent c"
    unfolding c normalComponent_def by (simp add: replace5F_Nil_iff replace5F_dots)
qed

lemma fileName_normal:
  "CHR ''/'' \<notin> set name \<Longrightarrow> ext = ''ts'' \<or> ext = ''tsx'' \<Longrightarrow> normalComponent (name @ ''.'' @ ext)"
  by (cases name; cases "tl name") (auto simp: normalComponent_def)

lemma direct_descent_finds:
  "\<forall>k < length segs. directoryExists typescript (descend dir (take (Suc k) segs))
     \<Longrightarrow> [] \<notin> set segs
     \<Longrightarrow> findRouteTypeFile typescript (descend dir segs) config [''ts'', ''tsx''] = Some p
     \<Longrightarrow> length segs < fuel
     \<Longrightarrow> searchDir fuel typescript dir segs config = Returns (Some p)"
proof (induction segs arbitrary: dir fuel)
  case Nil
  then obtain n where "fuel = Suc n" by (cases fuel) auto
  with Nil show ?case by (simp only: searchDir.simps) (simp add: descend_def)
next
  case (Cons seg rest)
  from Cons.prems(4) obtain n where fuel: "fuel = Suc n" and n: "length rest < n"
    by (cases fuel) auto
  from Cons.prems(2) have ne: "seg \<noteq> []" and rest: "[] \<notin> set rest" by auto
  from Cons.prems(1) have d0: "directoryExists typescript (join [dir, seg])"
    by (auto simp: descend_def)
  have "\<forall>k < length rest. directoryExists typescript (descend (join [dir, seg]) (take (Suc k) rest))"
    using Cons.prems(1) by (auto simp: descend_def)
  moreover have "findRouteTypeFile typescript (descend (join [dir, seg]) rest) config [''ts'', ''tsx''] = Some p"
    using Cons.prems(3) by (simp add: descend_def)
  ultimately have s: "searchDir n typescript (join [dir, seg]) rest config = Returns (Some p)"
    using rest n by (intro Cons.IH)
  from search_truthy(1)[OF s] have "truthy (Some p)" by simp
  from searchDir_Cons_direct[OF ne d0 s this] show ?case unfolding fuel .
qed


lemma resolveRouteToFile_exists:
  assumes "resolveRouteToFile typescript r projectPath config = Some \<lparr>filePath = p, exists = True\<rparr>"
  shows "findRouteTypeFile typescript
           (if escapedSegments (parseRouteSegments r) = [] then join [projectPath, appDir config]
            else join (join [projectPath, appDir config] # escapedSegments (parseRouteSegments r)))
           config [''ts'', ''tsx''] = Some p"
  using assms
  by (auto simp: resolveRouteToFile_def buildPossiblePaths_def Let_def split: if_splits)

lemma dotDot_segments: "escapedSegments (parseRouteSegments ''/a/../b'') = [''a'', ''..'', ''b'']"
  by (simp add: escapedSegments_def parseRouteSegments_def)

lemma dotDot_resolve:
  "resolveRouteToFile dotDotProject ''/a/../b'' ''/project'' defaultConfig
     = Some \<lparr>filePath = ''/project/src/app/b/routeType.ts'', exists = True\<rparr>"
  by code_simp

lemma dotDot_search:
  "findRouteTypeWithGroups (Suc n) dotDotProject ''/a/../b'' ''/project'' defaultConfig = Returns None"
proof -
  have app: "join [''/project'', appDir defaultConfig] = ''/project/src/app''" by code_simp
  have a: "join [''/project/src/app'', ''a''] = ''/project/src/app/a''" by code_simp
  have nm: "dirNameOf ''b/'' = Some ''b''" by code_simp
  have ng: "\<not> isRouteGroup ''b''" by code_simp
  show ?thesis
    unfolding findRouteTypeWithGroups_def Let_def dotDot_segments app
    by (simp add: a nm ng dotDotProject_def)
qed

lemma dotDot_ancestors: "ancestorDirsExist dotDotProject"
proof -
  have "d \<in> set [''/'', ''/project'', ''/project/src'', ''/project/src/app'', ''/project/src/app/b'']"
    if "isAncestorDir d ''/project/src/app/b/routeType.ts''" for d
  proof (cases "d = ''/''")
    case True
    then show ?thesis by simp
  next
    case False
    with that have pre: "prefix (d @ ''/'') ''/project/src/app/b/routeType.ts''" and ne: "d \<noteq> []"
      by (auto simp: isAncestorDir_def strict_prefix_def)
    from pre have mem: "d @ ''/'' \<in> set (prefixes ''/project/src/app/b/routeType.ts'')"
      by (simp only: in_set_prefixes)
    have all: "\<forall>x \<in> set (prefixes ''/project/src/app/b/routeType.ts'').
        x \<noteq> [] \<and> last x = CHR ''/'' \<and> butlast x \<noteq> [] \<longrightarrow>
          butlast x \<in> set [''/'', ''/project'', ''/project/src'', ''/project/src/app'', ''/project/src/app/b'']"
      by code_simp
    from bspec[OF all mem] ne
    have "butlast (d @ ''/'') \<in> set [''/'', ''/project'', ''/project/src'', ''/project/src/app'', ''/project/src/app/b'']"
      by simp
    then show ?thesis by simp
  qed
  then show ?thesis
    unfolding ancestorDirsExist_def by (simp add: dotDotProject_def)
qed


text \<open>
  Claim C9, as stated: whenever every existing file's ancestor directories exist and
  direct resolution finds an existing file, the grouping search returns the same path.
  For the route \<^verbatim>\<open>/a/../b\<close> direct resolution joins all segments at once, which
  normalises to the directory \<^verbatim>\<open>b\<close>, and finds the file; the grouping search looks
  for a directory \<^verbatim>\<open>a\<close> first, which does not exist, and returns null.
\<close>

theorem dot_dot_route_counterexample:
  "ancestorDirsExist dotDotProject
   \<and> resolveRouteToFile dotDotProject ''/a/../b'' ''/project'' defaultConfig
       = Some \<lparr>filePath = ''/project/src/app/b/routeType.ts'', exists = True\<rparr>
   \<and> findRouteTypeWithGroups 4 dotDotProject ''/a/../b'' ''/project'' defaultConfig = Returns None"
proof -
  have "(4::nat) = Suc 3" by simp
  then have "findRouteTypeWithGroups 4 dotDotProject ''/a/../b'' ''/project'' defaultConfig = Returns None"
    by (simp only: dotDot_search)
  with dotDot_ancestors dotDot_resolve show ?thesis by blast
qed

text \<open>
  Claim C9, amended.  For a route none of whose segments is \<^verbatim>\<open>.\<close> or \<^verbatim>\<open>..\<close> and a
  definition file name without a separator: if every existing file's ancestor
  directories are reported as existing and direct resolution returns an existing file,
  then the grouping search, given fuel for one call more than there are segments,
  returns the same path.
\<close>

theorem direct_resolution_refined:
  assumes anc: "ancestorDirsExist typescript"
    and dots: "\<forall>s \<in> set (parseRouteSegments r). s \<noteq> ''.'' \<and> s \<noteq> ''..''"
    and name: "CHR ''/'' \<notin> set (routeTypeFileName config)"
    and res: "resolveRouteToFile typescript r projectPath config = Some \<lparr>filePath = p, exists = True\<rparr>"
    and fuel: "length (parseRouteSegments r) < fuel"
  shows "findRouteTypeWithGroups fuel typescript r projectPath config = Returns (Some p)"
proof -
  let ?app = "join [projectPath, appDir config]"
  let ?segs = "escapedSegments (parseRouteSegments r)"
  have app: "?app \<noteq> []" by (rule join_nonempty)
  have normal: "\<forall>c \<in> set ?segs. normalComponent c"
    using dots by (rule escapedSegments_normal)
  have routeDir: "(if ?segs = [] then ?app else join (?app # ?segs)) = descend ?app ?segs"
  proof (cases "?segs = []")
    case True
    then show ?thesis by (simp add: descend_def)
  next
    case False
    with app normal show ?thesis
      by (simp add: join_normalForm descend_normalForm)
  qed
  from resolveRouteToFile_exists[OF res]
  have found: "findRouteTypeFile typescript (descend ?app ?segs) config [''ts'', ''tsx''] = Some p"
    unfolding routeDir .
  from findRouteTypeFile_Some[OF found] obtain ext where
    ex: "fileExists typescript p" and ext: "ext = ''ts'' \<or> ext = ''tsx''"
    and p: "p = join [descend ?app ?segs, routeTypeFileName config @ ''.'' @ ext]"
    by auto
  have fname: "normalComponent (routeTypeFileName config @ ''.'' @ ext)"
    using name ext by (rule fileName_normal)
  have dirs: "directoryExists typescript (descend ?app (take (Suc k) ?segs))" if k: "k < length ?segs" for k
  proof -
    let ?cs = "take (Suc k) ?segs"
    let ?deeper = "drop (Suc k) ?segs @ [routeTypeFileName config @ ''.'' @ ext]"
    from k have ne: "?segs \<noteq> []" "?cs \<noteq> []" by auto
    have ncs: "\<forall>c \<in> set ?cs. normalComponent c" using normal by (auto dest: in_set_takeD)
    have d1: "descend ?app ?cs = normalForm ?app ?cs"
      using app ne(2) ncs by (rule descend_normalForm)
    have "descend ?app ?segs = normalForm ?app ?segs"
      using app ne(1) normal by (rule descend_normalForm)
    moreover have "normalForm ?app ?segs \<noteq> []" using ne(1) normal by (rule normalForm_reparse(1))
    ultimately have "p = normalForm (normalForm ?app ?segs) [routeTypeFileName config @ ''.'' @ ext]"
      unfolding p using fname by (simp add: join_normalForm)
    also have "\<dots> = normalForm ?app (?segs @ [routeTypeFileName config @ ''.'' @ ext])"
      using ne(1) normal by (rule normalForm_normalForm)
    also have "?segs @ [routeTypeFileName config @ ''.'' @ ext] = ?cs @ ?deeper" by simp
    finally have "p = normalForm ?app (?cs @ ?deeper)" .
    moreover have "isAncestorDir (normalForm ?app ?cs) (normalForm ?app (?cs @ ?deeper))"
      using ne(2) normal fname by (intro normalForm_ancestor) (auto dest: in_set_takeD in_set_dropD)
    ultimately have "isAncestorDir (descend ?app ?cs) p" unfolding d1 by simp
    with anc ex show ?thesis unfolding ancestorDirsExist_def by blast
  qed
  have "searchDir fuel typescript ?app ?segs config = Returns (Some p)"
    using dirs escapedSegments_nonempty found fuel
    by (intro direct_descent_finds) (auto simp: escapedSegments_def)
  then show ?thesis by (simp add: findRouteTypeWithGroups_def Let_def)
qed

theorem direct_resolution_refined_witness:
  "findRouteTypeWithGroups 2 dotDotProject ''/b'' ''/project'' defaultConfig
     = Returns (Some ''/project/src/app/b/routeType.ts'')"
proof -
  have segs: "parseRouteSegments ''/b'' = [''b'']" by (simp add: parseRouteSegments_def)
  have res: "resolveRouteToFile dotDotProject ''/b'' ''/project'' defaultConfig
     = Some \<lparr>filePath = ''/project/src/app/b/routeType.ts'', exists = True\<rparr>"
    by code_simp
  have name: "CHR ''/'' \<notin> set (routeTypeFileName defaultConfig)"
    by (simp add: defaultConfig_def)
  show ?thesis
    using direct_resolution_refined [OF dotDot_ancestors _ name res, of 2] segs by simp
qed

section \<open>Case sensitivity of escape decoding\<close>

lemma replace5F_lower:
  "replace5F (a @ ''%5f'' @ b) = replace5F a @ ''%5f'' @ replace5F b"
proof (induction a rule: replace5F.induct)
  case 1
  show ?case by simp
next
  case (2 c cs)
  show ?case
  proof (cases "c = CHR ''%'' \<and> take 2 cs = ''5F''")
    case True
    then have len: "2 \<le> length cs"
      by (metis length_take min.cobounded1 length_Cons list.size(3) One_nat_def Suc_1)
    with True 2 show ?thesis by simp
  next
    case False
    have "take 2 (cs @ ''%5f'' @ b) \<noteq> ''5F'' \<or> c \<noteq> CHR ''%''"
    proof (cases "2 \<le> length cs")
      case True
      with False show ?thesis by auto
    next
      case False
      then have "cs = [] \<or> (\<exists>x. cs = [x])"
        by (cases cs; cases "tl cs") auto
      then show ?thesis by auto
    qed
    with False 2 show ?thesis by auto
  qed
qed

lemma parseRouteSegments_single:
  "seg \<noteq> [] \<Longrightarrow> CHR ''/'' \<notin> set seg \<Longrightarrow> parseRouteSegments (CHR ''/'' # seg) = [seg]"
proof -
  assume ne: "seg \<noteq> []" and free: "CHR ''/'' \<notin> set seg"
  from free have "splitBy (\<lambda>c. c = CHR ''/'') seg = [seg]"
    by (intro splitBy_no_sep) auto
  with ne show ?thesis unfolding parseRouteSegments_def by simp
qed

text \<open>
  Claim C10.  Decoding is case-sensitive.  The upper-case \<^verbatim>\<open>%5F\<close> becomes an
  underscore wherever it occurs, a lower-case \<^verbatim>\<open>%5f\<close> is left as written, and
  decoding changes a segment only if the upper-case \<^verbatim>\<open>%5F\<close> occurs in it.  The
  route \<^verbatim>\<open>/a%5Fb\<close> gives the one decoded segment with the underscore and the route
  \<^verbatim>\<open>/a%5fb\<close> the one with \<^verbatim>\<open>%5f\<close> kept.  Both resolvers work on the decoded
  segments of every route: direct resolution builds its two candidates from them, and
  the grouping search runs on them; for a route whose segments hold no \<^verbatim>\<open>%5F\<close>
  these are the segments as written.
\<close>

theorem decoding_is_case_sensitive:
  "replace5F (a @ ''%5F'' @ b) = replace5F a @ ''_'' @ replace5F b
   \<and> replace5F (a @ ''%5f'' @ b) = replace5F a @ ''%5f'' @ replace5F b
   \<and> (replace5F s \<noteq> s \<longrightarrow> sublist ''%5F'' s)
   \<and> (CHR ''/'' \<notin> set (a @ b) \<longrightarrow>
         escapedSegments (parseRouteSegments (''/'' @ a @ ''%5F'' @ b)) = [replace5F a @ ''_'' @ replace5F b]
         \<and> escapedSegments (parseRouteSegments (''/'' @ a @ ''%5f'' @ b)) = [replace5F a @ ''%5f'' @ replace5F b])
   \<and> (let appDirPath = join [projectPath, appDir config];
           decoded = map replace5F (parseRouteSegments r);
           routeDir = (if decoded = [] then appDirPath else join (appDirPath # decoded));
           tsPath = join [routeDir, routeTypeFileName config @ ''.ts''];
           tsxPath = join [routeDir, routeTypeFileName config @ ''.tsx'']
       in resolveRouteToFile typescript r projectPath config =
            Some (if fileExists typescript tsPath then \<lparr>filePath = tsPath, exists = True\<rparr>
                  else if fileExists typescript tsxPath then \<lparr>filePath = tsxPath, exists = True\<rparr>
                  else \<lparr>filePath = tsPath, exists = False\<rparr>)
          \<and> findRouteTypeWithGroups fuel typescript r projectPath config
              = searchDir fuel typescript appDirPath decoded config)
   \<and> ((\<forall>s \<in> set (parseRouteSegments r). \<not> sublist ''%5F'' s) \<longrightarrow>
         (let appDirPath = join [projectPath, appDir config];
              routeDir = (if parseRouteSegments r = [] then appDirPath
                          else join (appDirPath # parseRouteSegments r));
              tsPath = join [routeDir, routeTypeFileName config @ ''.ts''];
              tsxPath = join [routeDir, routeTypeFileName config @ ''.tsx'']
          in resolveRouteToFile typescript r projectPath config =
               Some (if fileExists typescript tsPath then \<lparr>filePath = tsPath, exists = True\<rparr>
                     else if fileExists typescript tsxPath then \<lparr>filePath = tsxPath, exists = True\<rparr>
                     else \<lparr>filePath = tsPath, exists = False\<rparr>)
             \<and> findRouteTypeWithGroups fuel typescript r projectPath config
                 = searchDir fuel typescript appDirPath (parseRouteSegments r) config))"
proof -
  have upper: "replace5F (a @ ''%5F'' @ b) = replace5F a @ ''_'' @ replace5F b"
    by (rule replace5F_append)
  have lower: "replace5F (a @ ''%5f'' @ b) = replace5F a @ ''%5f'' @ replace5F b"
    by (rule replace5F_lower)
  have only: "replace5F s \<noteq> s \<longrightarrow> sublist ''%5F'' s"
    using replace5F_id by blast
  have single: "escapedSegments (parseRouteSegments (''/'' @ a @ ''%5F'' @ b)) = [replace5F a @ ''_'' @ replace5F b]
         \<and> escapedSegments (parseRouteSegments (''/'' @ a @ ''%5f'' @ b)) = [replace5F a @ ''%5f'' @ replace5F b]"
    if free: "CHR ''/'' \<notin> set (a @ b)"
  proof -
    from free have u: "CHR ''/'' \<notin> set (a @ ''%5F'' @ b)" and l: "CHR ''/'' \<notin> set (a @ ''%5f'' @ b)"
      by simp_all
    have "parseRouteSegments (CHR ''/'' # (a @ ''%5F'' @ b)) = [a @ ''%5F'' @ b]"
      by (rule parseRouteSegments_single[OF _ u]) simp
    moreover have "parseRouteSegments (CHR ''/'' # (a @ ''%5f'' @ b)) = [a @ ''%5f'' @ b]"
      by (rule parseRouteSegments_single[OF _ l]) simp
    ultimately show ?thesis
      using upper lower by (simp add: escapedSegments_def)
  qed
  have both: "let appDirPath = join [projectPath, appDir config];
           decoded = map replace5F (parseRouteSegments r);
           routeDir = (if decoded = [] then appDirPath else join (appDirPath # decoded));
           tsPath = join [routeDir, routeTypeFileName config @ ''.ts''];
           tsxPath = join [routeDir, routeTypeFileName config @ ''.tsx'']
       in resolveRouteToFile typescript r projectPath config =
            Some (if fileExists typescript tsPath then \<lparr>filePath = tsPath, exists = True\<rparr>
                  else if fileExists typescript tsxPath then \<lparr>filePath = tsxPath, exists = True\<rparr>
                  else \<lparr>filePath = tsPath, exists = False\<rparr>)
          \<and> findRouteTypeWithGroups fuel typescript r projectPath config
              = searchDir fuel typescript appDirPath decoded config"
    unfolding resolveRouteToFile_def buildPossiblePaths_def findRouteTypeWithGroups_def Let_def
      escapedSegments_def
    by simp
  have raw: "let appDirPath = join [projectPath, appDir config];
              routeDir = (if parseRouteSegments r = [] then appDirPath
                          else join (appDirPath # parseRouteSegments r));
              tsPath = join [routeDir, routeTypeFileName config @ ''.ts''];
              tsxPath = join [routeDir, routeTypeFileName config @ ''.tsx'']
          in resolveRouteToFile typescript r projectPath config =
               Some (if fileExists typescript tsPath then \<lparr>filePath = tsPath, exists = True\<rparr>
                     else if fileExists typescript tsxPath then \<lparr>filePath = tsxPath, exists = True\<rparr>
                     else \<lparr>filePath = tsPath, exists = False\<rparr>)
             \<and> findRouteTypeWithGroups fuel typescript r projectPath config
                 = searchDir fuel typescript appDirPath (parseRouteSegments r) config"
    if "\<forall>s \<in> set (parseRouteSegments r). \<not> sublist ''%5F'' s"
  proof -
    from that have raw: "escapedSegments (parseRouteSegments r) = parseRouteSegments r"
      by (simp add: escapedSegments_def replace5F_id map_idI)
    show ?thesis
      unfolding resolveRouteToFile_def buildPossiblePaths_def findRouteTypeWithGroups_def Let_def raw
      by simp
  qed
  from upper lower only single both raw show ?thesis by blast
qed

theorem decoding_is_case_sensitive_witness:
  "replace5F ''%5Fdraft'' = ''_draft''
   \<and> replace5F ''%5fdraft'' = ''%5fdraft''
   \<and> resolveRouteToFile draftProject ''/%5Fdraft'' ''/project'' defaultConfig
       = Some \<lparr>filePath = ''/project/src/app/_draft/routeType.ts'', exists = True\<rparr>
   \<and> resolveRouteToFile draftProject ''/%5fdraft'' ''/project'' defaultConfig
       = Some \<lparr>filePath = ''/project/src/app/%5fdraft/routeType.ts'', exists = True\<rparr>
   \<and> findRouteTypeWithGroups 2 draftProject ''/%5Fdraft'' ''/project'' defaultConfig
       = Returns (Some ''/project/src/app/_draft/routeType.ts'')
   \<and> findRouteTypeWithGroups 2 draftProject ''/%5fdraft'' ''/project'' defaultConfig
       = Returns (Some ''/project/src/app/%5fdraft/routeType.ts'')"
proof -
  have free: "CHR ''/'' \<notin> set ([] @ ''draft'')" by simp
  have r5: "replace5F [] = []" "replace5F ''draft'' = ''draft''" by simp_all
  have app: "join [''/project'', appDir defaultConfig] = ''/project/src/app''" by code_simp
  have dirU: "join [''/project/src/app'', ''_draft''] = ''/project/src/app/_draft''" by code_simp
  have dirL: "join [''/project/src/app'', ''%5fdraft''] = ''/project/src/app/%5fdraft''" by code_simp
  have tsU: "join [''/project/src/app/_draft'', routeTypeFileName defaultConfig @ ''.ts'']
              = ''/project/src/app/_draft/routeType.ts''" by code_simp
  have tsL: "join [''/project/src/app/%5fdraft'', routeTypeFileName defaultConfig @ ''.ts'']
              = ''/project/src/app/%5fdraft/routeType.ts''" by code_simp
  have searchU: "searchDir 2 draftProject ''/project/src/app'' [''_draft''] defaultConfig
        = Returns (Some ''/project/src/app/_draft/routeType.ts'')" by code_simp
  have searchL: "searchDir 2 draftProject ''/project/src/app'' [''%5fdraft''] defaultConfig
        = Returns (Some ''/project/src/app/%5fdraft/routeType.ts'')" by code_simp
  note instU = decoding_is_case_sensitive
      [where a = "[]" and b = "''draft''" and s = "''%5Fdraft''" and r = "''/%5Fdraft''"
         and projectPath = "''/project''" and config = defaultConfig
         and typescript = draftProject and fuel = 2]
  note instL = decoding_is_case_sensitive
      [where a = "[]" and b = "''draft''" and s = "''%5fdraft''" and r = "''/%5fdraft''"
         and projectPath = "''/project''" and config = defaultConfig
         and typescript = draftProject and fuel = 2]
  from instU have 1: "replace5F ''%5Fdraft'' = ''_draft''" by (simp add: r5)
  from instL have 2: "replace5F ''%5fdraft'' = ''%5fdraft''" by (simp add: r5)
  from instU free have segU: "escapedSegments (parseRouteSegments ''/%5Fdraft'') = [''_draft'']"
    by (simp add: r5)
  from instL free have segL: "escapedSegments (parseRouteSegments ''/%5fdraft'') = [''%5fdraft'']"
    by (simp add: r5)
  from instU
  have 3: "resolveRouteToFile draftProject ''/%5Fdraft'' ''/project'' defaultConfig
       = Some \<lparr>filePath = ''/project/src/app/_draft/routeType.ts'', exists = True\<rparr>"
    unfolding segU[unfolded escapedSegments_def] Let_def app
    by (simp add: dirU tsU draftProject_def filesOnly_def)
  from instL
  have 4: "resolveRouteToFile draftProject ''/%5fdraft'' ''/project'' defaultConfig
       = Some \<lparr>filePath = ''/project/src/app/%5fdraft/routeType.ts'', exists = True\<rparr>"
    unfolding segL[unfolded escapedSegments_def] Let_def app
    by (simp add: dirL tsL draftProject_def filesOnly_def)
  from instU
  have 5: "findRouteTypeWithGroups 2 draftProject ''/%5Fdraft'' ''/project'' defaultConfig
       = Returns (Some ''/project/src/app/_draft/routeType.ts'')"
    unfolding segU[unfolded escapedSegments_def] Let_def app searchU by blast
  from instL
  have 6: "findRouteTypeWithGroups 2 draftProject ''/%5fdraft'' ''/project'' defaultConfig
       = Returns (Some ''/project/src/app/%5fdraft/routeType.ts'')"
    unfolding segL[unfolded escapedSegments_def] Let_def app searchL by blast
  from 1 2 3 4 5 6 show ?thesis by blast
qed

end
